theory Spec2Isabelle
  imports Complex_Main "HOL-Library.Word"
begin

section \<open>JavaScript numbers, as far as the sample codec uses them\<close>

text \<open>
  The codec of \<^verbatim>\<open>src/App.tsx\<close> reads its samples from a \<^verbatim>\<open>Float32Array\<close>. A
  sample is a finite number, an infinity or NaN. Finite values are modelled by the real
  number they denote: the only arithmetic the codec does on a sample is one
  multiplication of a clamped value (magnitude at most 1, a 24-bit significand) by 32768
  or 32767, which a double represents exactly, so no rounding is lost in the model. The
  sign of zero is not modelled: both zeros are stored as the integer 0.
\<close>

datatype jsnum = Num real | PosInf | NegInf | NaN

text \<open>The relational operator \<^verbatim>\<open>a < b\<close>: false as soon as one operand is NaN.\<close>

fun jsLess :: "jsnum \<Rightarrow> jsnum \<Rightarrow> bool" where
  "jsLess (Num a) (Num b) = (a < b)"
| "jsLess (Num a) PosInf = True"
| "jsLess (Num a) NegInf = False"
| "jsLess PosInf _ = False"
| "jsLess NegInf (Num b) = True"
| "jsLess NegInf PosInf = True"
| "jsLess NegInf NegInf = False"
| "jsLess NaN _ = False"
| "jsLess _ NaN = False"

text \<open>\<^verbatim>\<open>Math.min\<close> and \<^verbatim>\<open>Math.max\<close> of two arguments: NaN if either is NaN.\<close>

definition mathMin :: "jsnum \<Rightarrow> jsnum \<Rightarrow> jsnum" where
  "mathMin a b = (if a = NaN \<or> b = NaN then NaN else if jsLess b a then b else a)"

definition mathMax :: "jsnum \<Rightarrow> jsnum \<Rightarrow> jsnum" where
  "mathMax a b = (if a = NaN \<or> b = NaN then NaN else if jsLess a b then b else a)"

text \<open>The product \<^verbatim>\<open>a * b\<close>; an infinity times zero is NaN.\<close>

fun jsMul :: "jsnum \<Rightarrow> jsnum \<Rightarrow> jsnum" where
  "jsMul (Num a) (Num b) = Num (a * b)"
| "jsMul NaN _ = NaN"
| "jsMul _ NaN = NaN"
| "jsMul (Num a) PosInf = (if a = 0 then NaN else if 0 < a then PosInf else NegInf)"
| "jsMul (Num a) NegInf = (if a = 0 then NaN else if 0 < a then NegInf else PosInf)"
| "jsMul PosInf (Num b) = (if b = 0 then NaN else if 0 < b then PosInf else NegInf)"
| "jsMul NegInf (Num b) = (if b = 0 then NaN else if 0 < b then NegInf else PosInf)"
| "jsMul PosInf PosInf = PosInf"
| "jsMul PosInf NegInf = NegInf"
| "jsMul NegInf PosInf = NegInf"
| "jsMul NegInf NegInf = PosInf"

text \<open>Truncation towards zero, the integer part that the typed-array conversions keep.\<close>

definition truncR :: "real \<Rightarrow> int" where
  "truncR r = (if 0 \<le> r then \<lfloor>r\<rfloor> else \<lceil>r\<rceil>)"

text \<open>
  \<^verbatim>\<open>ToInt16\<close>, applied by \<^verbatim>\<open>DataView.setInt16\<close> and by a store into an
  \<^verbatim>\<open>Int16Array\<close>: NaN and the infinities become 0, a finite number is truncated and
  taken modulo \<open>2 ^ 16\<close> (the word wraps).
\<close>

fun toInt16 :: "jsnum \<Rightarrow> 16 word" where
  "toInt16 (Num r) = word_of_int (truncR r)"
| "toInt16 PosInf = 0"
| "toInt16 NegInf = 0"
| "toInt16 NaN = 0"

section \<open>Byte buffers and the DataView\<close>

type_synonym byte = "8 word"

datatype jsError =
  RangeError | IndexSizeError | EngineError | EncoderError | DownloadError | NotAllowedError

definition bindE :: "'e + 'a \<Rightarrow> ('a \<Rightarrow> 'e + 'b) \<Rightarrow> 'e + 'b" where
  "bindE m f = (case m of Inl e \<Rightarrow> Inl e | Inr a \<Rightarrow> f a)"

text \<open>
  A \<^verbatim>\<open>DataView\<close> store of \<open>length bs\<close> bytes at a byte offset: the bytes replace
  those of the buffer, or the call throws a RangeError when they do not fit.
\<close>

definition storeBytes :: "byte list \<Rightarrow> nat \<Rightarrow> byte list \<Rightarrow> jsError + byte list" where
  "storeBytes view off bs =
     (if off + length bs \<le> length view
      then Inr (take off view @ bs @ drop (off + length bs) view)
      else Inl RangeError)"

definition bytes16 :: "16 word \<Rightarrow> bool \<Rightarrow> byte list" where
  "bytes16 w littleEndian =
     (let le = [ucast w, ucast (drop_bit 8 w)] in if littleEndian then le else rev le)"

definition bytes32 :: "32 word \<Rightarrow> bool \<Rightarrow> byte list" where
  "bytes32 w littleEndian =
     (let le = [ucast w, ucast (drop_bit 8 w), ucast (drop_bit 16 w), ucast (drop_bit 24 w)]
      in if littleEndian then le else rev le)"

text \<open>The setters take a non-negative integer and keep it modulo the field width.\<close>

definition setUint8 :: "byte list \<Rightarrow> nat \<Rightarrow> nat \<Rightarrow> jsError + byte list" where
  "setUint8 view off v = storeBytes view off [of_nat v]"

definition setUint16 :: "byte list \<Rightarrow> nat \<Rightarrow> nat \<Rightarrow> bool \<Rightarrow> jsError + byte list" where
  "setUint16 view off v littleEndian = storeBytes view off (bytes16 (of_nat v) littleEndian)"

definition setUint32 :: "byte list \<Rightarrow> nat \<Rightarrow> nat \<Rightarrow> bool \<Rightarrow> jsError + byte list" where
  "setUint32 view off v littleEndian = storeBytes view off (bytes32 (of_nat v) littleEndian)"

definition setInt16 :: "byte list \<Rightarrow> nat \<Rightarrow> jsnum \<Rightarrow> bool \<Rightarrow> jsError + byte list" where
  "setInt16 view off v littleEndian = storeBytes view off (bytes16 (toInt16 v) littleEndian)"

text \<open>Reading back, for statements about the bytes written.\<close>

definition getUint16 :: "byte list \<Rightarrow> nat \<Rightarrow> nat" where
  "getUint16 view off = unat (view ! off) + 256 * unat (view ! (off + 1))"

definition getUint32 :: "byte list \<Rightarrow> nat \<Rightarrow> nat" where
  "getUint32 view off =
     unat (view ! off) + 256 * unat (view ! (off + 1)) + 65536 * unat (view ! (off + 2))
       + 16777216 * unat (view ! (off + 3))"

definition getInt16 :: "byte list \<Rightarrow> nat \<Rightarrow> 16 word" where
  "getInt16 view off = of_nat (getUint16 view off)"

text \<open>\<^verbatim>\<open>writeString\<close> (App.tsx, lines 22-26): one \<^verbatim>\<open>setUint8\<close> per character.\<close>

fun writeString :: "byte list \<Rightarrow> nat \<Rightarrow> string \<Rightarrow> jsError + byte list" where
  "writeString view offset [] = Inr view"
| "writeString view offset (c # cs) =
     bindE (setUint8 view offset (of_char c)) (\<lambda>view'. writeString view' (Suc offset) cs)"

section \<open>The PCM buffer\<close>

text \<open>
  An \<^verbatim>\<open>AudioBuffer\<close>: its sample rate and one array of samples per channel. The
  attributes \<^verbatim>\<open>numberOfChannels\<close> and \<^verbatim>\<open>length\<close> are read off the channel arrays.
  The host only builds buffers with at least one channel and channels of one length
  (\<open>wfBuffer\<close>). The sample rate is a whole number of hertz.
\<close>

record AudioBuffer =
  sampleRate :: nat
  channelData :: "jsnum list list"

definition numberOfChannels :: "AudioBuffer \<Rightarrow> nat" where
  "numberOfChannels b = length (channelData b)"

definition bufferLength :: "AudioBuffer \<Rightarrow> nat" where
  "bufferLength b = (case channelData b of [] \<Rightarrow> 0 | c # _ \<Rightarrow> length c)"

definition wfBuffer :: "AudioBuffer \<Rightarrow> bool" where
  "wfBuffer b = (channelData b \<noteq> [] \<and> list_all (\<lambda>c. length c = bufferLength b) (channelData b))"

definition getChannelData :: "AudioBuffer \<Rightarrow> nat \<Rightarrow> jsError + jsnum list" where
  "getChannelData b i =
     (if i < numberOfChannels b then Inr (channelData b ! i) else Inl IndexSizeError)"

text \<open>An indexed read of a typed array; past the end it is \<^verbatim>\<open>undefined\<close>, which the
  arithmetic that follows turns into NaN.\<close>

definition readSample :: "jsnum list \<Rightarrow> nat \<Rightarrow> jsnum" where
  "readSample a i = (if i < length a then a ! i else NaN)"

text \<open>A counted loop \<^verbatim>\<open>for (let i = 0; i < n; i++)\<close> over a state, stopping at the first
  exception: \<open>forEachE [0..<n] body\<close>.\<close>

fun forEachE :: "nat list \<Rightarrow> (nat \<Rightarrow> 's \<Rightarrow> 'e + 's) \<Rightarrow> 's \<Rightarrow> 'e + 's" where
  "forEachE [] body s = Inr s"
| "forEachE (i # is) body s = bindE (body i s) (forEachE is body)"

section \<open>The WAV encoder\<close>

text \<open>The sample conversion of \<^verbatim>\<open>bufferToWav\<close> (App.tsx, lines 72-75).\<close>

definition wavIntSample :: "jsnum \<Rightarrow> jsnum" where
  "wavIntSample sample0 =
     (let sample = mathMax (Num (- 1)) (mathMin (Num 1) sample0)
      in if jsLess sample (Num 0) then jsMul sample (Num 32768) else jsMul sample (Num 32767))"

text \<open>The channel arrays collected by the first loop (lines 65-68).\<close>

definition collectChannels :: "AudioBuffer \<Rightarrow> jsError + jsnum list list" where
  "collectChannels b =
     forEachE [0..<numberOfChannels b]
       (\<lambda>i channels. bindE (getChannelData b i) (\<lambda>c. Inr (channels @ [c]))) []"

text \<open>The body of the inner sample loop (lines 71-79) on the view and the offset.\<close>

definition writeSample ::
  "jsnum list list \<Rightarrow> nat \<Rightarrow> nat \<Rightarrow> byte list \<times> nat \<Rightarrow> jsError + byte list \<times> nat" where
  "writeSample channels i j st =
     (case st of (view, offset) \<Rightarrow>
        bindE (setInt16 view offset (wavIntSample (readSample (channels ! j) i)) True)
          (\<lambda>view'. Inr (view', offset + 2)))"

definition writeSamples ::
  "jsnum list list \<Rightarrow> nat \<Rightarrow> nat \<Rightarrow> byte list \<times> nat \<Rightarrow> jsError + byte list \<times> nat" where
  "writeSamples channels numSamples numChannels =
     forEachE [0..<numSamples]
       (\<lambda>i. forEachE [0..<numChannels] (\<lambda>j. writeSample channels i j))"

text \<open>\<^verbatim>\<open>bufferToWav\<close> (lines 29-83): the view over the fresh, zeroed buffer and the
  running offset. The result is the content of the view, which the Blob wraps.\<close>

definition bufferToWav :: "AudioBuffer \<Rightarrow> jsError + byte list" where
  "bufferToWav buffer =
     (let numChannels = numberOfChannels buffer;
          sampleRateV = sampleRate buffer;
          numSamples = bufferLength buffer;
          bitsPerSample = 16;
          bytesPerSample = bitsPerSample div 8;
          dataSize = numSamples * numChannels * bytesPerSample;
          headerSize = 44;
          fileSize = headerSize + dataSize;
          view = replicate fileSize (0 :: byte);
          offset = 0
      in
      bindE (writeString view offset ''RIFF'') (\<lambda>view. let offset = offset + 4 in
      bindE (setUint32 view offset (fileSize - 8) True) (\<lambda>view. let offset = offset + 4 in
      bindE (writeString view offset ''WAVE'') (\<lambda>view. let offset = offset + 4 in
      bindE (writeString view offset ''fmt '') (\<lambda>view. let offset = offset + 4 in
      bindE (setUint32 view offset 16 True) (\<lambda>view. let offset = offset + 4 in
      bindE (setUint16 view offset 1 True) (\<lambda>view. let offset = offset + 2 in
      bindE (setUint16 view offset numChannels True) (\<lambda>view. let offset = offset + 2 in
      bindE (setUint32 view offset sampleRateV True) (\<lambda>view. let offset = offset + 4 in
      bindE (setUint32 view offset (sampleRateV * numChannels * bytesPerSample) True)
        (\<lambda>view. let offset = offset + 4 in
      bindE (setUint16 view offset (numChannels * bytesPerSample) True)
        (\<lambda>view. let offset = offset + 2 in
      bindE (setUint16 view offset bitsPerSample True) (\<lambda>view. let offset = offset + 2 in
      bindE (writeString view offset ''data'') (\<lambda>view. let offset = offset + 4 in
      bindE (setUint32 view offset dataSize True) (\<lambda>view. let offset = offset + 4 in
      bindE (collectChannels buffer) (\<lambda>channels.
      bindE (writeSamples channels numSamples numChannels (view, offset)) (\<lambda>st.
      Inr (fst st)))))))))))))))))"

text \<open>The bytes of a string, one character code each (for reading markers back).\<close>

definition charBytes :: "string \<Rightarrow> byte list" where
  "charBytes s = map (\<lambda>c. of_nat (of_char c)) s"

text \<open>
  The layout the WAV encoder is compared with: the 44 header bytes in field order, and
  the sample data, frame after frame, the channels of a frame in channel order.
\<close>

definition wavHeader :: "AudioBuffer \<Rightarrow> byte list" where
  "wavHeader b =
     charBytes ''RIFF'' @ bytes32 (of_nat (36 + bufferLength b * numberOfChannels b * 2)) True
     @ charBytes ''WAVE'' @ charBytes ''fmt '' @ bytes32 16 True @ bytes16 1 True
     @ bytes16 (of_nat (numberOfChannels b)) True @ bytes32 (of_nat (sampleRate b)) True
     @ bytes32 (of_nat (sampleRate b * numberOfChannels b * 2)) True
     @ bytes16 (of_nat (numberOfChannels b * 2)) True @ bytes16 16 True
     @ charBytes ''data'' @ bytes32 (of_nat (bufferLength b * numberOfChannels b * 2)) True"

definition frameBytes :: "jsnum list list \<Rightarrow> nat \<Rightarrow> nat \<Rightarrow> byte list" where
  "frameBytes channels c i =
     concat (map (\<lambda>j. bytes16 (toInt16 (wavIntSample (readSample (channels ! j) i))) True) [0..<c])"

definition wavData :: "AudioBuffer \<Rightarrow> byte list" where
  "wavData b = concat (map (frameBytes (channelData b) (numberOfChannels b)) [0..<bufferLength b])"

text \<open>A view whose first bytes are written and whose last \<open>n\<close> bytes are still zero.\<close>

definition seqView :: "byte list \<Rightarrow> nat \<Rightarrow> byte list" where
  "seqView pre n = pre @ replicate n 0"

section \<open>The MP3 encoder\<close>

text \<open>
  The encoder library (\<^verbatim>\<open>lamejs\<close>, loaded from outside the repository) is a parameter:
  a constructor, \<^verbatim>\<open>encodeBuffer\<close>, which consumes one chunk per channel and returns
  the bytes it emits, and \<^verbatim>\<open>flush\<close>. Its state is threaded explicitly.
\<close>

record 'st lame =
  newMp3Encoder :: "nat \<Rightarrow> nat \<Rightarrow> nat \<Rightarrow> 'st"
  encodeBuffer :: "'st \<Rightarrow> 16 word list \<Rightarrow> 16 word list \<Rightarrow> 'st \<times> byte list"
  flush :: "'st \<Rightarrow> byte list"

text \<open>The element conversion of \<^verbatim>\<open>convertTo16Bit\<close> (App.tsx, lines 99-100).\<close>

definition mp3IntSample :: "jsnum \<Rightarrow> jsnum" where
  "mp3IntSample x =
     (let s = mathMax (Num (- 1)) (mathMin (Num 1) x)
      in if jsLess s (Num 0) then jsMul s (Num 0x8000) else jsMul s (Num 0x7FFF))"

text \<open>The loop of \<^verbatim>\<open>convertTo16Bit\<close> (lines 98-101) over the fresh, zeroed array.\<close>

function convertLoop :: "jsnum list \<Rightarrow> nat \<Rightarrow> 16 word list \<Rightarrow> 16 word list" where
  "convertLoop float32Array i int16Array =
     (if i < length float32Array
      then convertLoop float32Array (i + 1)
             (int16Array[i := toInt16 (mp3IntSample (float32Array ! i))])
      else int16Array)"
  by pat_completeness auto
termination
  by (relation "measure (\<lambda>(f, i, a). length f - i)") auto

definition convertTo16Bit :: "jsnum list \<Rightarrow> 16 word list" where
  "convertTo16Bit float32Array = convertLoop float32Array 0 (replicate (length float32Array) 0)"

text \<open>Lines 93-106: the two encoder inputs.\<close>

definition mp3Samples :: "AudioBuffer \<Rightarrow> jsError + 16 word list \<times> 16 word list" where
  "mp3Samples buffer =
     (let numChannels = numberOfChannels buffer in
      bindE (getChannelData buffer 0) (\<lambda>pcmLeft.
      bindE (if numChannels > 1 then getChannelData buffer 1 else Inr pcmLeft) (\<lambda>pcmRight.
      Inr (convertTo16Bit pcmLeft, convertTo16Bit pcmRight))))"

text \<open>\<^verbatim>\<open>subarray(lo, hi)\<close> of a typed array; both bounds are clamped to the array.\<close>

definition subarray :: "'a list \<Rightarrow> nat \<Rightarrow> nat \<Rightarrow> 'a list" where
  "subarray a lo hi = take (hi - lo) (drop lo a)"

text \<open>The chunk loop (lines 108-116) on the encoder state and the array \<^verbatim>\<open>mp3Data\<close>.\<close>

function encodeLoop ::
  "'st lame \<Rightarrow> 16 word list \<Rightarrow> 16 word list \<Rightarrow> nat \<Rightarrow> 'st \<Rightarrow> byte list list
     \<Rightarrow> 'st \<times> byte list list" where
  "encodeLoop encoder samplesLeft samplesRight i st mp3Data =
     (if i < length samplesLeft
      then
        (let leftChunk = subarray samplesLeft i (i + 1152);
             rightChunk = subarray samplesRight i (i + 1152);
             r = encodeBuffer encoder st leftChunk rightChunk;
             mp3buf = snd r
         in encodeLoop encoder samplesLeft samplesRight (i + 1152) (fst r)
              (if length mp3buf > 0 then mp3Data @ [mp3buf] else mp3Data))
      else (st, mp3Data))"
  by pat_completeness auto
termination
  by (relation "measure (\<lambda>(e, l, r, i, s, d). length l - i)") auto

text \<open>\<^verbatim>\<open>bufferToMp3\<close> (lines 86-124): the array \<^verbatim>\<open>mp3Data\<close> handed to the Blob, and the
  Blob's content, the concatenation of its parts.\<close>

definition mp3Data :: "'st lame \<Rightarrow> AudioBuffer \<Rightarrow> jsError + byte list list" where
  "mp3Data encoder buffer =
     (let numChannels = numberOfChannels buffer;
          sampleRateV = sampleRate buffer;
          kbps = 128;
          st0 = newMp3Encoder encoder numChannels sampleRateV kbps
      in bindE (mp3Samples buffer) (\<lambda>samples.
           let looped = encodeLoop encoder (fst samples) (snd samples) 0 st0 [];
               mp3buf = flush encoder (fst looped)
           in Inr (if length mp3buf > 0 then snd looped @ [mp3buf] else snd looped)))"

definition bufferToMp3 :: "'st lame \<Rightarrow> AudioBuffer \<Rightarrow> jsError + byte list" where
  "bufferToMp3 encoder buffer = bindE (mp3Data encoder buffer) (\<lambda>parts. Inr (concat parts))"

text \<open>
  What the chunk loop is compared with: the chunk pairs in input order (chunk \<open>k\<close> holds
  the samples from \<open>1152 * k\<close> on, at most 1152 of them), and the encoder run over a
  list of chunk pairs, keeping every output in emission order.
\<close>

definition chunkPairs :: "'a list \<Rightarrow> 'a list \<Rightarrow> ('a list \<times> 'a list) list" where
  "chunkPairs l r =
     map (\<lambda>k. (take 1152 (drop (1152 * k) l), take 1152 (drop (1152 * k) r)))
       [0..<(length l + 1151) div 1152]"

fun feed :: "'st lame \<Rightarrow> 'st \<Rightarrow> (16 word list \<times> 16 word list) list \<Rightarrow> 'st \<times> byte list list" where
  "feed encoder st [] = (st, [])"
| "feed encoder st (c # cs) =
     (let r = encodeBuffer encoder st (fst c) (snd c);
          rest = feed encoder (fst r) cs
      in (fst rest, snd r # snd rest))"

text \<open>A small encoder for concrete runs: it emits the low byte of every left sample
  and counts the samples it has seen; \<^verbatim>\<open>flush\<close> emits the count.\<close>

definition lowByteEncoder :: "nat lame" where
  "lowByteEncoder =
     \<lparr>newMp3Encoder = (\<lambda>channels rate kbps. 0),
      encodeBuffer = (\<lambda>st l r. (st + length l, map ucast l)),
      flush = (\<lambda>st. [of_nat st])\<rparr>"

text \<open>Another one, which emits nothing and keeps in its state the sizes of the chunks it
  has been given, left and right, in the order of the calls.\<close>

definition chunkSizeEncoder :: "(nat \<times> nat) list lame" where
  "chunkSizeEncoder =
     \<lparr>newMp3Encoder = (\<lambda>channels rate kbps. []),
      encodeBuffer = (\<lambda>st l r. (st @ [(length l, length r)], [])),
      flush = (\<lambda>st. [])\<rparr>"

section \<open>Effect parameters and the effect graph\<close>

datatype filterType =
  Lowpass | Highpass | Bandpass | Lowshelf | Highshelf | Peaking | Notch | Allpass

text \<open>A \<^verbatim>\<open>BiquadFilterNode\<close>: its \<^verbatim>\<open>type\<close> and the values of its parameters.\<close>

record biquad =
  biquadType :: filterType
  biquadFrequency :: real
  biquadQ :: real
  biquadGain :: real

text \<open>
  The parameter values of the nodes of one effect graph, live or offline: the delay
  node's \<^verbatim>\<open>delayTime\<close>, the gains of the feedback and voice-boost nodes, and the two
  filters. The connections are the same in every graph and are not modelled.
\<close>

record graphNodes =
  delayNodeDelayTime :: real
  feedbackGainNodeGain :: real
  noiseReductionFilter :: biquad
  voiceBoostGainNodeGain :: real
  clarityFilterNode :: biquad

text \<open>The nodes of the graph rendered for the preview waveform (lines 575-592), which
  has no delay line.\<close>

record previewNodes =
  previewBoostGain :: real
  previewClarityFilter :: biquad
  previewNoiseReduction :: biquad

text \<open>
  The attributes of a \<^verbatim>\<open>Slider\<close> (components/Slider.tsx): an
  \<^verbatim>\<open>input type="range"\<close> with \<^verbatim>\<open>min\<close>, \<^verbatim>\<open>max\<close> and \<^verbatim>\<open>step\<close>. The host's input
  element only reports values of the range that lie on the step grid from \<^verbatim>\<open>min\<close>.
\<close>

record sliderProps =
  sliderMin :: real
  sliderMax :: real
  sliderStep :: real

definition rangeInputAdmits :: "sliderProps \<Rightarrow> real \<Rightarrow> bool" where
  "rangeInputAdmits p v =
     (sliderMin p \<le> v \<and> v \<le> sliderMax p
      \<and> of_int \<lfloor>(v - sliderMin p) / sliderStep p\<rfloor> * sliderStep p = v - sliderMin p)"

text \<open>The two echo sliders (App.tsx, lines 680-681).\<close>

definition delaySlider :: sliderProps where
  "delaySlider = \<lparr>sliderMin = 0.01, sliderMax = 1.0, sliderStep = 0.01\<rparr>"

definition feedbackSlider :: sliderProps where
  "feedbackSlider = \<lparr>sliderMin = 0, sliderMax = 0.95, sliderStep = 0.01\<rparr>"

section \<open>The host and the component state\<close>

datatype format = Wav | Mp3

text \<open>A \<^verbatim>\<open>HistoryItem\<close> (App.tsx, lines 11-18); the fields carry the prefix \<open>item\<close>.\<close>

record HistoryItem =
  itemId :: int
  itemFileName :: string
  itemTimestamp :: int
  itemAudioBuffer :: AudioBuffer
  itemWavBlob :: "byte list"
  itemMp3Blob :: "byte list"

text \<open>
  What the host supplies to one call of a handler: the defaults of a fresh biquad
  filter; the offline render, from the construction of the \<^verbatim>\<open>OfflineAudioContext\<close> to
  the result of \<^verbatim>\<open>startRendering\<close> (lines 347-394), which may fail; the encoder
  library; failures raised by the host inside the two encoders (an allocation that fails,
  a library that is missing); the two clock readings \<^verbatim>\<open>Date.now()\<close> and
  \<^verbatim>\<open>new Date()\<close>; and the download click (lines 409-420), which may throw.
\<close>

record 'st host =
  createBiquadFilter :: biquad
  startRendering :: "graphNodes \<Rightarrow> AudioBuffer \<Rightarrow> jsError + AudioBuffer"
  lamejs :: "'st lame"
  wavFault :: "AudioBuffer \<Rightarrow> jsError option"
  mp3Fault :: "AudioBuffer \<Rightarrow> jsError option"
  dateNow :: int
  newDate :: int
  clickDownload :: "string \<Rightarrow> byte list \<Rightarrow> jsError option"

text \<open>
  A function of the component closes over the state values of the render that created
  it, and a function that outlives its render keeps them. \<^verbatim>\<open>setupAudioContext\<close> reads
  four state values from its closure: those of its dependency list (line 203).
\<close>

record renderValues =
  renderDelayTime :: real
  renderFeedback :: real
  renderVoiceBoost :: real
  renderClarity :: real

text \<open>
  The state of the \<^verbatim>\<open>App\<close> component that the export, the history, the recorder and
  the effect parameters use (lines 128-147), the live nodes behind the refs (lines
  161-168; \<open>None\<close> until \<^verbatim>\<open>setupAudioContext\<close> has run), and what the user has been
  shown: the alerts and the downloads started. A \<^verbatim>\<open>MediaRecorder\<close> is kept as what
  its \<^verbatim>\<open>onstop\<close> handler has closed over; \<open>pendingStop\<close> holds the recorders
  whose \<^verbatim>\<open>stop\<close> event is queued, in the order of their \<^verbatim>\<open>stop()\<close> calls.
\<close>

record appState =
  audioBuffer :: "AudioBuffer option"
  fileName :: string
  renderingFormat :: "format option"
  history :: "HistoryItem list"
  delayTime :: real
  feedback :: real
  isClarityOn :: bool
  voiceBoost :: real
  clarity :: real
  liveNodes :: "graphNodes option"
  alerts :: "string list"
  downloads :: "(string \<times> byte list) list"
  isRecording :: bool
  mediaRecorderRef :: "renderValues option"
  pendingStop :: "renderValues list"

definition initialState :: appState where
  "initialState =
     \<lparr>audioBuffer = None, fileName = '''', renderingFormat = None, history = [],
      delayTime = 0.5, feedback = 0.5, isClarityOn = False, voiceBoost = 1, clarity = 0,
      liveNodes = None, alerts = [], downloads = [],
      isRecording = False, mediaRecorderRef = None, pendingStop = []\<rparr>"

text \<open>The values a function created in the render of state \<open>s\<close> closes over.\<close>

definition currentRender :: "appState \<Rightarrow> renderValues" where
  "currentRender s =
     \<lparr>renderDelayTime = delayTime s, renderFeedback = feedback s,
      renderVoiceBoost = voiceBoost s, renderClarity = clarity s\<rparr>"

text \<open>
  \<^verbatim>\<open>setupAudioContext\<close> (lines 171-203): the nodes are created once, with the values
  \<open>r\<close> of the closure that runs. The noise filter is made allpass whatever the
  noise-reduction setting is.
\<close>

definition setupAudioContext :: "'st host \<Rightarrow> renderValues \<Rightarrow> appState \<Rightarrow> appState" where
  "setupAudioContext env r s =
     (case liveNodes s of
        Some g \<Rightarrow> s
      | None \<Rightarrow>
          s\<lparr>liveNodes := Some
              \<lparr>delayNodeDelayTime = renderDelayTime r,
               feedbackGainNodeGain = renderFeedback r,
               noiseReductionFilter = (createBiquadFilter env)\<lparr>biquadType := Allpass\<rparr>,
               voiceBoostGainNodeGain = renderVoiceBoost r,
               clarityFilterNode = (createBiquadFilter env)
                 \<lparr>biquadType := Peaking, biquadFrequency := 3500, biquadQ := 1.5,
                  biquadGain := renderClarity r\<rparr>\<rparr>\<rparr>)"

text \<open>
  The five parameter effects (lines 522-556). Each runs after a render in which its
  state variable changed, and acts only when the live nodes exist.
\<close>

definition delayTimeEffect :: "appState \<Rightarrow> appState" where
  "delayTimeEffect s =
     (case liveNodes s of None \<Rightarrow> s
      | Some g \<Rightarrow> s\<lparr>liveNodes := Some (g\<lparr>delayNodeDelayTime := delayTime s\<rparr>)\<rparr>)"

definition feedbackEffect :: "appState \<Rightarrow> appState" where
  "feedbackEffect s =
     (case liveNodes s of None \<Rightarrow> s
      | Some g \<Rightarrow> s\<lparr>liveNodes := Some (g\<lparr>feedbackGainNodeGain := feedback s\<rparr>)\<rparr>)"

definition isClarityOnEffect :: "appState \<Rightarrow> appState" where
  "isClarityOnEffect s =
     (case liveNodes s of None \<Rightarrow> s
      | Some g \<Rightarrow>
          if isClarityOn s
          then s\<lparr>liveNodes := Some (g\<lparr>noiseReductionFilter :=
                 (noiseReductionFilter g)\<lparr>biquadType := Lowpass, biquadFrequency := 5000,
                                           biquadQ := 1\<rparr>\<rparr>)\<rparr>
          else s\<lparr>liveNodes := Some (g\<lparr>noiseReductionFilter :=
                 (noiseReductionFilter g)\<lparr>biquadType := Allpass\<rparr>\<rparr>)\<rparr>)"

definition voiceBoostEffect :: "appState \<Rightarrow> appState" where
  "voiceBoostEffect s =
     (case liveNodes s of None \<Rightarrow> s
      | Some g \<Rightarrow> s\<lparr>liveNodes := Some (g\<lparr>voiceBoostGainNodeGain := voiceBoost s\<rparr>)\<rparr>)"

definition clarityEffect :: "appState \<Rightarrow> appState" where
  "clarityEffect s =
     (case liveNodes s of None \<Rightarrow> s
      | Some g \<Rightarrow> s\<lparr>liveNodes := Some (g\<lparr>clarityFilterNode :=
                 (clarityFilterNode g)\<lparr>biquadGain := clarity s\<rparr>\<rparr>)\<rparr>)"

text \<open>The state setters the controls call (lines 680-688), each followed by its effect
  when the value changed.\<close>

definition setDelayTime :: "real \<Rightarrow> appState \<Rightarrow> appState" where
  "setDelayTime v s =
     (if v = delayTime s then s else delayTimeEffect (s\<lparr>delayTime := v\<rparr>))"

definition setFeedback :: "real \<Rightarrow> appState \<Rightarrow> appState" where
  "setFeedback v s =
     (if v = feedback s then s else feedbackEffect (s\<lparr>feedback := v\<rparr>))"

definition setIsClarityOn :: "bool \<Rightarrow> appState \<Rightarrow> appState" where
  "setIsClarityOn v s =
     (if v = isClarityOn s then s else isClarityOnEffect (s\<lparr>isClarityOn := v\<rparr>))"

definition setVoiceBoost :: "real \<Rightarrow> appState \<Rightarrow> appState" where
  "setVoiceBoost v s =
     (if v = voiceBoost s then s else voiceBoostEffect (s\<lparr>voiceBoost := v\<rparr>))"

definition setClarity :: "real \<Rightarrow> appState \<Rightarrow> appState" where
  "setClarity v s =
     (if v = clarity s then s else clarityEffect (s\<lparr>clarity := v\<rparr>))"

text \<open>The node values of the offline graph that \<^verbatim>\<open>handleDownload\<close> builds
  (lines 356-379).\<close>

definition offlineGraph :: "'st host \<Rightarrow> appState \<Rightarrow> graphNodes" where
  "offlineGraph env s =
     \<lparr>delayNodeDelayTime = delayTime s,
      feedbackGainNodeGain = feedback s,
      noiseReductionFilter =
        (if isClarityOn s
         then (createBiquadFilter env)\<lparr>biquadType := Lowpass, biquadFrequency := 5000,
                                       biquadQ := 1\<rparr>
         else (createBiquadFilter env)\<lparr>biquadType := Allpass\<rparr>),
      voiceBoostGainNodeGain = voiceBoost s,
      clarityFilterNode = (createBiquadFilter env)
        \<lparr>biquadType := Peaking, biquadFrequency := 3500, biquadQ := 1.5,
         biquadGain := clarity s\<rparr>\<rparr>"

text \<open>The node values of the graph that the preview effect builds (lines 575-592).\<close>

definition previewGraph :: "'st host \<Rightarrow> appState \<Rightarrow> previewNodes" where
  "previewGraph env s =
     \<lparr>previewBoostGain = voiceBoost s,
      previewClarityFilter = (createBiquadFilter env)
        \<lparr>biquadType := Peaking, biquadFrequency := 3500, biquadQ := 1.5,
         biquadGain := clarity s\<rparr>,
      previewNoiseReduction =
        (if isClarityOn s
         then (createBiquadFilter env)\<lparr>biquadType := Lowpass, biquadFrequency := 5000,
                                       biquadQ := 1\<rparr>
         else (createBiquadFilter env)\<lparr>biquadType := Allpass\<rparr>)\<rparr>"

section \<open>Loading, recording and exporting\<close>

text \<open>
  \<^verbatim>\<open>loadFile\<close> (lines 217-237), run from a closure with the values \<open>r\<close>, which it
  hands to \<^verbatim>\<open>setupAudioContext\<close>; the decoding is the host's and may fail.
\<close>

definition loadFile ::
  "'st host \<Rightarrow> renderValues \<Rightarrow> string \<Rightarrow> jsError + AudioBuffer \<Rightarrow> appState \<Rightarrow> appState" where
  "loadFile env r name decoded s =
     (let s1 = setupAudioContext env r s;
          s2 = s1\<lparr>fileName := name, audioBuffer := None\<rparr>
      in case decoded of
           Inr decodedData \<Rightarrow> s2\<lparr>audioBuffer := Some decodedData\<rparr>
         | Inl e \<Rightarrow> s2\<lparr>fileName := ''Failed to load. Format may not be supported.'',
                        audioBuffer := None\<rparr>)"

text \<open>
  \<^verbatim>\<open>startRecording\<close> (lines 430-463). \<^verbatim>\<open>getUserMedia\<close> may be refused, which
  the handler reports. Otherwise a recorder is created and started; its \<^verbatim>\<open>onstop\<close>
  handler (lines 447-451) is a function of this render, and so is the \<^verbatim>\<open>loadFile\<close>
  it will call.
\<close>

definition startRecording :: "jsError option \<Rightarrow> appState \<Rightarrow> appState" where
  "startRecording refused s =
     (if isRecording s then s
      else case refused of
             Some e \<Rightarrow>
               s\<lparr>alerts := alerts s
                   @ [''Could not start recording. Please grant microphone permission.'']\<rparr>
           | None \<Rightarrow> s\<lparr>isRecording := True, mediaRecorderRef := Some (currentRender s)\<rparr>)"

text \<open>\<^verbatim>\<open>stopRecording\<close> (lines 465-473): \<^verbatim>\<open>stop()\<close> queues the recorder's
  \<^verbatim>\<open>stop\<close> event.\<close>

definition stopRecording :: "appState \<Rightarrow> appState" where
  "stopRecording s =
     (if \<not> isRecording s then s
      else case mediaRecorderRef s of
             None \<Rightarrow> s
           | Some recorder \<Rightarrow>
               s\<lparr>pendingStop := pendingStop s @ [recorder], isRecording := False\<rparr>)"

text \<open>
  The dispatch of a queued \<^verbatim>\<open>stop\<close> event: the recorder's \<^verbatim>\<open>onstop\<close> handler
  (lines 447-451) loads the recording, named after the host's clock, with the
  \<^verbatim>\<open>loadFile\<close> of the render in which the recording was started.
\<close>

definition recorderOnstop ::
  "'st host \<Rightarrow> string \<Rightarrow> jsError + AudioBuffer \<Rightarrow> appState \<Rightarrow> appState" where
  "recorderOnstop env isoDate decoded s =
     (case pendingStop s of
        [] \<Rightarrow> s
      | r # rest \<Rightarrow>
          loadFile env r (''recording-'' @ isoDate @ ''.wav'') decoded (s\<lparr>pendingStop := rest\<rparr>))"

text \<open>\<^verbatim>\<open>handleHistoryLoad\<close> (lines 475-479).\<close>

definition handleHistoryLoad :: "HistoryItem \<Rightarrow> appState \<Rightarrow> appState" where
  "handleHistoryLoad item s =
     s\<lparr>audioBuffer := Some (itemAudioBuffer item),
       fileName := itemFileName item @ '' (from history)''\<rparr>"

text \<open>The two encoders as they run in the host.\<close>

definition hostBufferToWav :: "'st host \<Rightarrow> AudioBuffer \<Rightarrow> jsError + byte list" where
  "hostBufferToWav env b = (case wavFault env b of Some e \<Rightarrow> Inl e | None \<Rightarrow> bufferToWav b)"

definition hostBufferToMp3 :: "'st host \<Rightarrow> AudioBuffer \<Rightarrow> jsError + byte list" where
  "hostBufferToMp3 env b =
     (case mp3Fault env b of Some e \<Rightarrow> Inl e | None \<Rightarrow> bufferToMp3 (lamejs env) b)"

definition formatName :: "format \<Rightarrow> string" where
  "formatName f = (case f of Wav \<Rightarrow> ''wav'' | Mp3 \<Rightarrow> ''mp3'')"

text \<open>\<^verbatim>\<open>fileName.split('.')[0] || 'recording'\<close>.\<close>

definition baseName :: "string \<Rightarrow> string" where
  "baseName name =
     (let first = takeWhile (\<lambda>c. c \<noteq> CHR ''.'') name
      in if first = [] then ''recording'' else first)"

text \<open>
  The first part of the \<^verbatim>\<open>try\<close> block of \<^verbatim>\<open>handleDownload\<close> (lines 347-406): the
  offline render, the two encodings and the new history item. Nothing is written to the
  component state here.
\<close>

definition renderAndEncode :: "'st host \<Rightarrow> AudioBuffer \<Rightarrow> appState \<Rightarrow> jsError + HistoryItem" where
  "renderAndEncode env ab s =
     bindE (startRendering env (offlineGraph env s) ab) (\<lambda>renderedBuffer.
     bindE (hostBufferToWav env renderedBuffer) (\<lambda>wavBlob.
     bindE (hostBufferToMp3 env renderedBuffer) (\<lambda>mp3Blob.
     Inr \<lparr>itemId = dateNow env,
          itemFileName = baseName (fileName s),
          itemTimestamp = newDate env,
          itemAudioBuffer = renderedBuffer,
          itemWavBlob = wavBlob,
          itemMp3Blob = mp3Blob\<rparr>)))"

text \<open>The whole \<^verbatim>\<open>try\<close> block (lines 347-420): the state it leaves, and the exception
  it ends with, if any.\<close>

definition tryBlock :: "'st host \<Rightarrow> format \<Rightarrow> AudioBuffer \<Rightarrow> appState \<Rightarrow> (jsError + unit) \<times> appState" where
  "tryBlock env fmt ab s =
     (case renderAndEncode env ab s of
        Inl e \<Rightarrow> (Inl e, s)
      | Inr newHistoryItem \<Rightarrow>
          (let s1 = s\<lparr>history := take 10 (newHistoryItem # history s)\<rparr>;
               blobToDownload = (if fmt = Wav then itemWavBlob newHistoryItem
                                 else itemMp3Blob newHistoryItem);
               name = ''processed_'' @ itemFileName newHistoryItem @ ''.'' @ formatName fmt
           in case clickDownload env name blobToDownload of
                Some e \<Rightarrow> (Inl e, s1)
              | None \<Rightarrow> (Inr (), s1\<lparr>downloads := downloads s1 @ [(name, blobToDownload)]\<rparr>)))"

text \<open>\<^verbatim>\<open>try\<close>, \<^verbatim>\<open>catch\<close> and \<^verbatim>\<open>finally\<close> over a state: the handler runs on the state the
  body left, the last block always runs, and the result is the exception that escapes.\<close>

definition tryCatchFinally ::
  "('s \<Rightarrow> (jsError + unit) \<times> 's) \<Rightarrow> (jsError \<Rightarrow> 's \<Rightarrow> (jsError + unit) \<times> 's) \<Rightarrow> ('s \<Rightarrow> 's)
     \<Rightarrow> 's \<Rightarrow> (jsError + unit) \<times> 's" where
  "tryCatchFinally body handler fin s =
     (let r = body s;
          c = (case fst r of Inl e \<Rightarrow> handler e (snd r) | Inr u \<Rightarrow> (Inr u, snd r))
      in (fst c, fin (snd c)))"

text \<open>\<^verbatim>\<open>handleDownload\<close> (lines 342-428).\<close>

definition handleDownload :: "'st host \<Rightarrow> format \<Rightarrow> appState \<Rightarrow> (jsError + unit) \<times> appState" where
  "handleDownload env fmt s =
     (case audioBuffer s of
        None \<Rightarrow> (Inr (), s)
      | Some ab \<Rightarrow>
          tryCatchFinally
            (tryBlock env fmt ab)
            (\<lambda>e s'. (Inr (), s'\<lparr>alerts := alerts s'
                        @ [''Failed to process audio for '' @ formatName fmt @ '' download.'']\<rparr>))
            (\<lambda>s'. s'\<lparr>renderingFormat := None\<rparr>)
            (s\<lparr>renderingFormat := Some fmt\<rparr>))"

text \<open>The events of a session, and the state after a list of them.\<close>

datatype 'st event =
    LoadFile "'st host" string "jsError + AudioBuffer"
  | StartRecording "jsError option"
  | StopRecording
  | RecorderStop "'st host" string "jsError + AudioBuffer"
  | Download "'st host" format
  | HistoryLoad HistoryItem
  | DelayChange real
  | FeedbackChange real
  | NoiseReductionToggle bool
  | VoiceBoostChange real
  | ClarityChange real

text \<open>A file chosen or dropped is loaded by the \<^verbatim>\<open>loadFile\<close> of the current render
  (lines 239-264).\<close>

fun appStep :: "'st event \<Rightarrow> appState \<Rightarrow> appState" where
  "appStep (LoadFile env name decoded) s = loadFile env (currentRender s) name decoded s"
| "appStep (StartRecording refused) s = startRecording refused s"
| "appStep StopRecording s = stopRecording s"
| "appStep (RecorderStop env isoDate decoded) s = recorderOnstop env isoDate decoded s"
| "appStep (Download env fmt) s = snd (handleDownload env fmt s)"
| "appStep (HistoryLoad item) s = handleHistoryLoad item s"
| "appStep (DelayChange v) s = setDelayTime v s"
| "appStep (FeedbackChange v) s = setFeedback v s"
| "appStep (NoiseReductionToggle v) s = setIsClarityOn v s"
| "appStep (VoiceBoostChange v) s = setVoiceBoost v s"
| "appStep (ClarityChange v) s = setClarity v s"

fun run :: "'st event list \<Rightarrow> appState \<Rightarrow> appState" where
  "run [] s = s"
| "run (ev # evs) s = run evs (appStep ev s)"

text \<open>
  The values of the echo sliders a user can produce; the other events are not
  constrained.
\<close>

fun admissible :: "'st event \<Rightarrow> bool" where
  "admissible (DelayChange v) = rangeInputAdmits delaySlider v"
| "admissible (FeedbackChange v) = rangeInputAdmits feedbackSlider v"
| "admissible _ = True"

text \<open>The history item an event creates, if any; the items a list of events creates,
  in creation order; and the readings of \<^verbatim>\<open>Date.now()\<close> its exports are given, in
  event order.\<close>

fun newItems :: "'st event \<Rightarrow> appState \<Rightarrow> HistoryItem list" where
  "newItems (Download env fmt) s =
     (case audioBuffer s of
        None \<Rightarrow> []
      | Some ab \<Rightarrow> (case renderAndEncode env ab s of Inl e \<Rightarrow> [] | Inr item \<Rightarrow> [item]))"
| "newItems ev s = []"

fun createdItems :: "'st event list \<Rightarrow> appState \<Rightarrow> HistoryItem list" where
  "createdItems [] s = []"
| "createdItems (ev # evs) s = newItems ev s @ createdItems evs (appStep ev s)"

fun clockReadings :: "'st event list \<Rightarrow> int list" where
  "clockReadings [] = []"
| "clockReadings (Download env fmt # evs) = dateNow env # clockReadings evs"
| "clockReadings (ev # evs) = clockReadings evs"

text \<open>
  A host for concrete runs: a fresh biquad filter has the defaults of the Web Audio API
  (lowpass, 350 Hz, Q 1, gain 0), the offline render returns its input, nothing fails,
  and both clocks read \<open>t\<close>. The buffer is two frames of one channel.
\<close>

definition sampleHost :: "int \<Rightarrow> nat host" where
  "sampleHost t =
     \<lparr>createBiquadFilter =
        \<lparr>biquadType = Lowpass, biquadFrequency = 350, biquadQ = 1, biquadGain = 0\<rparr>,
      startRendering = (\<lambda>g b. Inr b),
      lamejs = lowByteEncoder,
      wavFault = (\<lambda>b. None),
      mp3Fault = (\<lambda>b. None),
      dateNow = t,
      newDate = t,
      clickDownload = (\<lambda>name blob. None)\<rparr>"

definition sampleBuffer :: AudioBuffer where
  "sampleBuffer = \<lparr>sampleRate = 8000, channelData = [[Num 0.5, Num (- 1)]]\<rparr>"

text \<open>
  What holds of the echo parameters throughout a session: the values of the state, of
  the live nodes and of every closure a recorder holds lie in the ranges of the sliders.
\<close>

definition inSliderRanges :: "real \<Rightarrow> real \<Rightarrow> bool" where
  "inSliderRanges d f = (0.01 \<le> d \<and> d \<le> 1 \<and> 0 \<le> f \<and> f \<le> 0.95)"

definition echoInv :: "appState \<Rightarrow> bool" where
  "echoInv s =
     (inSliderRanges (delayTime s) (feedback s)
      \<and> (case liveNodes s of
            None \<Rightarrow> True
          | Some g \<Rightarrow> inSliderRanges (delayNodeDelayTime g) (feedbackGainNodeGain g))
      \<and> (case mediaRecorderRef s of
            None \<Rightarrow> True
          | Some r \<Rightarrow> inSliderRanges (renderDelayTime r) (renderFeedback r))
      \<and> list_all (\<lambda>r. inSliderRanges (renderDelayTime r) (renderFeedback r)) (pendingStop s))"

text \<open>What holds in a session in which no recording is loaded: the live nodes, once
  they exist, hold the echo parameters of the state.\<close>

definition liveInv :: "appState \<Rightarrow> bool" where
  "liveInv s =
     (case liveNodes s of
        None \<Rightarrow> True
      | Some g \<Rightarrow> delayNodeDelayTime g = delayTime s \<and> feedbackGainNodeGain g = feedback s)"

fun loadsRecording :: "'st event \<Rightarrow> bool" where
  "loadsRecording (RecorderStop env isoDate decoded) = True"
| "loadsRecording ev = False"

section \<open>Playback\<close>

text \<open>
  The playback handlers of \<^verbatim>\<open>App\<close> (lines 205-215, 266-340 and 481-502) act on the
  playing flags of the component state, on the five source refs and on the host's audio
  engine. Of the engine the model keeps what the handlers can observe or cause: the
  sources created so far (numbered in creation order), the handler attached to each as
  \<^verbatim>\<open>onended\<close>, the sources that are started and not yet stopped or run out
  (\<open>playing\<close>), and the sources whose \<^verbatim>\<open>ended\<close> event is queued. The engine
  dispatches \<^verbatim>\<open>ended\<close> as a task of its own, after the handler that called
  \<^verbatim>\<open>stop()\<close> has returned.
\<close>

datatype previewType = Before | After

datatype endedHandler = OriginalEnded | ProcessedEnded | PreviewEnded previewType | HistoryEnded

record playback =
  contextReady :: bool
  hasAudioBuffer :: bool
  hasProcessedVisBuffer :: bool
  isPlayingOriginal :: bool
  isPlayingProcessed :: bool
  playingHistoryId :: "int option"
  playingPreview :: "previewType option"
  originalSourceRef :: "nat option"
  processedSourceRef :: "nat option"
  historySourceRef :: "nat option"
  beforePreviewSourceRef :: "nat option"
  afterPreviewSourceRef :: "nat option"
  nextSource :: nat
  onended :: "nat \<Rightarrow> endedHandler option"
  playing :: "nat set"
  pendingEnded :: "nat list"

text \<open>\<^verbatim>\<open>source.stop()\<close>: a playing source stops and its \<^verbatim>\<open>ended\<close> event is queued; on a
  source that has already stopped the call does nothing.\<close>

definition stopSource :: "nat \<Rightarrow> playback \<Rightarrow> playback" where
  "stopSource n s =
     (if n \<in> playing s
      then s\<lparr>playing := playing s - {n}, pendingEnded := pendingEnded s @ [n]\<rparr>
      else s)"

text \<open>\<^verbatim>\<open>ref.current?.stop()\<close>.\<close>

definition stopRef :: "nat option \<Rightarrow> playback \<Rightarrow> playback" where
  "stopRef r s = (case r of None \<Rightarrow> s | Some n \<Rightarrow> stopSource n s)"

text \<open>\<^verbatim>\<open>createBufferSource\<close>, the assignment of \<^verbatim>\<open>onended\<close> and \<^verbatim>\<open>start(0)\<close>.\<close>

definition startSource :: "endedHandler \<Rightarrow> playback \<Rightarrow> nat \<times> playback" where
  "startSource h s =
     (let n = nextSource s
      in (n, s\<lparr>nextSource := n + 1, onended := (onended s)(n := Some h),
               playing := insert n (playing s)\<rparr>))"

text \<open>\<^verbatim>\<open>stopAllPlayback\<close> (lines 205-215).\<close>

definition stopAllPlayback :: "playback \<Rightarrow> playback" where
  "stopAllPlayback s =
     (let s1 = stopRef (originalSourceRef s) s;
          s2 = stopRef (processedSourceRef s1) s1;
          s3 = stopRef (historySourceRef s2) s2;
          s4 = stopRef (beforePreviewSourceRef s3) s3;
          s5 = stopRef (afterPreviewSourceRef s4) s4
      in s5\<lparr>isPlayingOriginal := False, isPlayingProcessed := False,
            playingHistoryId := None, playingPreview := None\<rparr>)"

text \<open>\<^verbatim>\<open>toggleOriginalPlayback\<close> (lines 266-282).\<close>

definition toggleOriginalPlayback :: "playback \<Rightarrow> playback" where
  "toggleOriginalPlayback s =
     (if \<not> contextReady s \<or> \<not> hasAudioBuffer s then s
      else if isPlayingOriginal s then stopRef (originalSourceRef s) s
      else
        (let s1 = stopAllPlayback s;
             r = startSource OriginalEnded s1
         in (snd r)\<lparr>originalSourceRef := Some (fst r), isPlayingOriginal := True\<rparr>))"

text \<open>\<^verbatim>\<open>toggleProcessedPlayback\<close> (lines 284-313); the delay and master-gain nodes exist
  as soon as the context does.\<close>

definition toggleProcessedPlayback :: "playback \<Rightarrow> playback" where
  "toggleProcessedPlayback s =
     (if \<not> contextReady s \<or> \<not> hasAudioBuffer s then s
      else if isPlayingProcessed s then stopRef (processedSourceRef s) s
      else
        (let s1 = stopAllPlayback s;
             r = startSource ProcessedEnded s1
         in (snd r)\<lparr>processedSourceRef := Some (fst r), isPlayingProcessed := True\<rparr>))"

text \<open>\<^verbatim>\<open>togglePreviewPlayback\<close> (lines 315-340).\<close>

definition togglePreviewPlayback :: "previewType \<Rightarrow> playback \<Rightarrow> playback" where
  "togglePreviewPlayback t s =
     (if \<not> contextReady s \<or> \<not> hasAudioBuffer s \<or> (t = After \<and> \<not> hasProcessedVisBuffer s)
      then s
      else if playingPreview s = Some t
      then (case t of Before \<Rightarrow> stopRef (beforePreviewSourceRef s) s
                    | After \<Rightarrow> stopRef (afterPreviewSourceRef s) s)
      else
        (let s1 = stopAllPlayback s;
             bufferToPlay = (case t of Before \<Rightarrow> hasAudioBuffer s1
                                     | After \<Rightarrow> hasProcessedVisBuffer s1)
         in if \<not> bufferToPlay then s1
            else
              (let r = startSource (PreviewEnded t) s1;
                   s2 = (case t of
                           Before \<Rightarrow> (snd r)\<lparr>beforePreviewSourceRef := Some (fst r)\<rparr>
                         | After \<Rightarrow> (snd r)\<lparr>afterPreviewSourceRef := Some (fst r)\<rparr>)
               in s2\<lparr>playingPreview := Some t\<rparr>)))"

text \<open>\<^verbatim>\<open>handleHistoryPlay\<close> (lines 481-502), on the id of the item.\<close>

definition handleHistoryPlay :: "int \<Rightarrow> playback \<Rightarrow> playback" where
  "handleHistoryPlay item s =
     (if playingHistoryId s = Some item
      then (stopRef (historySourceRef s) s)\<lparr>playingHistoryId := None\<rparr>
      else
        (let s1 = stopAllPlayback s
         in if \<not> contextReady s1 then s1
            else
              (let r = startSource HistoryEnded s1
               in (snd r)\<lparr>historySourceRef := Some (fst r), playingHistoryId := Some item\<rparr>)))"

text \<open>The four \<^verbatim>\<open>onended\<close> handlers (lines 277, 304-308, 330-334 and 495-498).\<close>

fun runEnded :: "endedHandler \<Rightarrow> playback \<Rightarrow> playback" where
  "runEnded OriginalEnded s = s\<lparr>isPlayingOriginal := False\<rparr>"
| "runEnded ProcessedEnded s = s\<lparr>isPlayingProcessed := False\<rparr>"
| "runEnded (PreviewEnded Before) s = s\<lparr>playingPreview := None, beforePreviewSourceRef := None\<rparr>"
| "runEnded (PreviewEnded After) s = s\<lparr>playingPreview := None, afterPreviewSourceRef := None\<rparr>"
| "runEnded HistoryEnded s = s\<lparr>playingHistoryId := None, historySourceRef := None\<rparr>"

text \<open>
  The events of playback: the four controls, a handler that only stops all playback
  (loading a file or a history item, starting a recording), a source running out of
  samples, and the dispatch of a queued \<^verbatim>\<open>ended\<close> event.
\<close>

datatype playbackEvent =
    ToggleOriginal
  | ToggleProcessed
  | TogglePreview previewType
  | HistoryPlay int
  | StopAll
  | SourceRunsOut nat
  | EndedEvent nat

fun playbackStep :: "playbackEvent \<Rightarrow> playback \<Rightarrow> playback" where
  "playbackStep ToggleOriginal s = toggleOriginalPlayback s"
| "playbackStep ToggleProcessed s = toggleProcessedPlayback s"
| "playbackStep (TogglePreview t) s = togglePreviewPlayback t s"
| "playbackStep (HistoryPlay item) s = handleHistoryPlay item s"
| "playbackStep StopAll s = stopAllPlayback s"
| "playbackStep (SourceRunsOut n) s = stopSource n s"
| "playbackStep (EndedEvent n) s =
     (if n \<in> set (pendingEnded s)
      then (case onended s n of
              None \<Rightarrow> s\<lparr>pendingEnded := removeAll n (pendingEnded s)\<rparr>
            | Some h \<Rightarrow> runEnded h (s\<lparr>pendingEnded := removeAll n (pendingEnded s)\<rparr>))
      else s)"

fun runPlayback :: "playbackEvent list \<Rightarrow> playback \<Rightarrow> playback" where
  "runPlayback [] s = s"
| "runPlayback (ev # evs) s = runPlayback evs (playbackStep ev s)"

text \<open>A session in which a file is loaded and its preview rendered, and nothing plays.\<close>

definition readyPlayback :: playback where
  "readyPlayback =
     \<lparr>contextReady = True, hasAudioBuffer = True, hasProcessedVisBuffer = True,
      isPlayingOriginal = False, isPlayingProcessed = False, playingHistoryId = None,
      playingPreview = None, originalSourceRef = None, processedSourceRef = None,
      historySourceRef = None, beforePreviewSourceRef = None, afterPreviewSourceRef = None,
      nextSource = 0, onended = (\<lambda>n. None), playing = {}, pendingEnded = []\<rparr>"

text \<open>The sources a ref holds.\<close>

definition heldSources :: "playback \<Rightarrow> nat set" where
  "heldSources s =
     set_option (originalSourceRef s) \<union> set_option (processedSourceRef s)
     \<union> set_option (historySourceRef s) \<union> set_option (beforePreviewSourceRef s)
     \<union> set_option (afterPreviewSourceRef s)"

section \<open>Properties of the sample conversion\<close>

lemma bindE_Inr [simp]: "bindE (Inr a) f = f a"
  by (simp add: bindE_def)

lemma bindE_Inl [simp]: "bindE (Inl e) f = Inl e"
  by (simp add: bindE_def)

lemma clamp_Num: "mathMax (Num (- 1)) (mathMin (Num 1) (Num r)) = Num (max (- 1) (min 1 r))"
  by (simp add: mathMax_def mathMin_def max_def min_def)

lemma clamp_PosInf: "mathMax (Num (- 1)) (mathMin (Num 1) PosInf) = Num 1"
  by (simp add: mathMax_def mathMin_def)

lemma clamp_NegInf: "mathMax (Num (- 1)) (mathMin (Num 1) NegInf) = Num (- 1)"
  by (simp add: mathMax_def mathMin_def)

lemma clamp_NaN: "mathMax (Num (- 1)) (mathMin (Num 1) NaN) = NaN"
  by (simp add: mathMax_def mathMin_def)

lemma wavIntSample_Num:
  "wavIntSample (Num r) =
     Num (if max (- 1) (min 1 r) < 0 then max (- 1) (min 1 r) * 32768
          else max (- 1) (min 1 r) * 32767)"
  unfolding wavIntSample_def clamp_Num by (auto simp: Let_def)

lemma mp3_eq_wav: "mp3IntSample x = wavIntSample x"
  by (simp add: mp3IntSample_def wavIntSample_def)

lemma truncR_bounds:
  "lo \<le> r \<Longrightarrow> r \<le> hi \<Longrightarrow> lo \<le> 0 \<Longrightarrow> 0 \<le> hi \<Longrightarrow> of_int lo' = lo \<Longrightarrow> of_int hi' = hi
   \<Longrightarrow> lo' \<le> truncR r \<and> truncR r \<le> hi'"
  unfolding truncR_def by (auto simp: le_floor_iff floor_le_iff ceiling_le_iff le_ceiling_iff)

lemma scaled_range:
  fixes c :: real
  assumes "- 1 \<le> c" "c \<le> 1"
  shows "- 32768 \<le> truncR (if c < 0 then c * 32768 else c * 32767)"
    and "truncR (if c < 0 then c * 32768 else c * 32767) \<le> 32767"
proof -
  let ?v = "if c < 0 then c * 32768 else c * 32767"
  have "- 32768 \<le> ?v" "?v \<le> 32767" using assms by auto
  then have "(- 32768 :: int) \<le> truncR ?v \<and> truncR ?v \<le> 32767"
    by (intro truncR_bounds [where lo = "- 32768" and hi = 32767]) simp_all
  then show "- 32768 \<le> truncR ?v" "truncR ?v \<le> 32767" by simp_all
qed

lemma sint_int16: "- 32768 \<le> n \<Longrightarrow> n \<le> 32767 \<Longrightarrow> sint (word_of_int n :: 16 word) = n"
  by (simp add: int_word_sint)

lemma sint_wavIntSample_Num:
  "sint (toInt16 (wavIntSample (Num r)))
     = truncR (if max (- 1) (min 1 r) < 0 then max (- 1) (min 1 r) * 32768
               else max (- 1) (min 1 r) * 32767)"
proof -
  let ?c = "max (- 1) (min 1 r)"
  have "- 1 \<le> ?c" "?c \<le> 1" by simp_all
  then show ?thesis
    unfolding wavIntSample_Num toInt16.simps
    by (intro sint_int16 scaled_range)
qed

lemma wavIntSample_NaN: "wavIntSample NaN = NaN"
  by (simp add: wavIntSample_def clamp_NaN)

lemma wavIntSample_PosInf: "wavIntSample PosInf = Num 32767"
  by (simp add: wavIntSample_def clamp_PosInf)

lemma wavIntSample_NegInf: "wavIntSample NegInf = Num (- 32768)"
  by (simp add: wavIntSample_def clamp_NegInf)

text \<open>The integer stored for a sample, read as a signed 16-bit value.\<close>

lemma stored_sample:
  "sint (toInt16 (wavIntSample x))
     = (case x of
          Num r \<Rightarrow> truncR (if max (- 1) (min 1 r) < 0 then max (- 1) (min 1 r) * 32768
                            else max (- 1) (min 1 r) * 32767)
        | PosInf \<Rightarrow> 32767 | NegInf \<Rightarrow> - 32768 | NaN \<Rightarrow> 0)"
  by (cases x)
     (simp_all add: sint_wavIntSample_Num wavIntSample_PosInf wavIntSample_NegInf
        wavIntSample_NaN truncR_def)

text \<open>
  C1, as amended. For every sample that is a number, the 16-bit conversion of the WAV
  encoder, which the MP3 encoder's conversion equals, clamps the sample to \<open>[-1, 1]\<close>
  (an infinity to the bound of its sign), multiplies a negative clamped value by 32768
  and any other by 32767, and stores the product truncated towards zero, a value within
  the 16-bit range, so nothing wraps. The inputs 1.5, -1.5, 1, -1 and 0 give 32767,
  -32768, 32767, -32768 and 0. A NaN sample is not clamped: it stays NaN through the
  clamp and the scaling and is stored as 0.
\<close>

theorem sample_conversion:
  "(\<forall>r. let c = max (- 1) (min 1 r);
            v = (if c < 0 then c * 32768 else c * 32767)
        in mathMax (Num (- 1)) (mathMin (Num 1) (Num r)) = Num c
         \<and> - 1 \<le> c \<and> c \<le> 1
         \<and> wavIntSample (Num r) = Num v
         \<and> sint (toInt16 (wavIntSample (Num r))) = truncR v
         \<and> - 32768 \<le> truncR v \<and> truncR v \<le> 32767)
   \<and> (\<forall>x. mp3IntSample x = wavIntSample x)
   \<and> sint (toInt16 (wavIntSample PosInf)) = 32767
   \<and> sint (toInt16 (wavIntSample NegInf)) = - 32768
   \<and> sint (toInt16 (wavIntSample (Num 1.5))) = 32767
   \<and> sint (toInt16 (wavIntSample (Num (- 1.5)))) = - 32768
   \<and> sint (toInt16 (wavIntSample (Num 1))) = 32767
   \<and> sint (toInt16 (wavIntSample (Num (- 1)))) = - 32768
   \<and> sint (toInt16 (wavIntSample (Num 0))) = 0
   \<and> wavIntSample NaN = NaN
   \<and> sint (toInt16 (wavIntSample NaN)) = 0"
proof -
  have general: "\<forall>r. let c = max (- 1) (min 1 r);
            v = (if c < 0 then c * 32768 else c * 32767)
        in mathMax (Num (- 1)) (mathMin (Num 1) (Num r)) = Num c
         \<and> - 1 \<le> c \<and> c \<le> 1
         \<and> wavIntSample (Num r) = Num v
         \<and> sint (toInt16 (wavIntSample (Num r))) = truncR v
         \<and> - 32768 \<le> truncR v \<and> truncR v \<le> 32767"
  proof
    fix r :: real
    let ?c = "max (- 1) (min 1 r)"
    have c: "- 1 \<le> ?c" "?c \<le> 1" by simp_all
    show "let c = max (- 1) (min 1 r);
            v = (if c < 0 then c * 32768 else c * 32767)
        in mathMax (Num (- 1)) (mathMin (Num 1) (Num r)) = Num c
         \<and> - 1 \<le> c \<and> c \<le> 1
         \<and> wavIntSample (Num r) = Num v
         \<and> sint (toInt16 (wavIntSample (Num r))) = truncR v
         \<and> - 32768 \<le> truncR v \<and> truncR v \<le> 32767"
      unfolding Let_def
      using clamp_Num [of r] c wavIntSample_Num [of r] sint_wavIntSample_Num [of r]
        scaled_range [OF c]
      by blast
  qed
  have pinf: "sint (toInt16 (wavIntSample PosInf)) = 32767"
    by (simp add: wavIntSample_def clamp_PosInf truncR_def)
  have ninf: "sint (toInt16 (wavIntSample NegInf)) = - 32768"
    by (simp add: wavIntSample_def clamp_NegInf truncR_def)
  have e1: "sint (toInt16 (wavIntSample (Num 1.5))) = 32767"
    by (simp add: sint_wavIntSample_Num truncR_def)
  have e2: "sint (toInt16 (wavIntSample (Num (- 1.5)))) = - 32768"
    by (simp add: sint_wavIntSample_Num truncR_def)
  have e3: "sint (toInt16 (wavIntSample (Num 1))) = 32767"
    by (simp add: sint_wavIntSample_Num truncR_def)
  have e4: "sint (toInt16 (wavIntSample (Num (- 1)))) = - 32768"
    by (simp add: sint_wavIntSample_Num truncR_def)
  have e5: "sint (toInt16 (wavIntSample (Num 0))) = 0"
    by (simp add: sint_wavIntSample_Num truncR_def)
  have nan: "wavIntSample NaN = NaN"
    by (simp add: wavIntSample_def clamp_NaN)
  have nan0: "sint (toInt16 (wavIntSample NaN)) = 0"
    by (simp add: nan)
  show ?thesis
    using general mp3_eq_wav pinf ninf e1 e2 e3 e4 e5 nan nan0 by blast
qed

text \<open>
  C1 as stated fails at NaN: the clamp of NaN is no value of \<open>[-1, 1]\<close>, and the integer
  stored, 0, is not a clamped value times 32768 or 32767 computed from it.
\<close>

theorem sample_conversion_nan_counterexample:
  "\<not> (\<exists>c. mathMax (Num (- 1)) (mathMin (Num 1) NaN) = Num c \<and> - 1 \<le> c \<and> c \<le> 1)
   \<and> wavIntSample NaN = NaN \<and> mp3IntSample NaN = NaN
   \<and> toInt16 (wavIntSample NaN) = 0 \<and> toInt16 (mp3IntSample NaN) = 0"
  by (simp add: clamp_NaN wavIntSample_def mp3IntSample_def)

section \<open>Properties of the WAV encoder\<close>

lemma storeBytes_seq:
  "off = length pre \<Longrightarrow> length bs \<le> length rest \<Longrightarrow>
   storeBytes (pre @ rest) off bs = Inr ((pre @ bs) @ drop (length bs) rest)"
  by (simp add: storeBytes_def)

lemma length_bytes16 [simp]: "length (bytes16 w e) = 2"
  by (simp add: bytes16_def Let_def)

lemma length_bytes32 [simp]: "length (bytes32 w e) = 4"
  by (simp add: bytes32_def Let_def)

lemma length_charBytes [simp]: "length (charBytes s) = length s"
  by (simp add: charBytes_def)

lemma writeString_seq:
  "off = length pre \<Longrightarrow> length s \<le> length rest \<Longrightarrow>
   writeString (pre @ rest) off s = Inr ((pre @ charBytes s) @ drop (length s) rest)"
proof (induction s arbitrary: pre rest off)
  case Nil
  then show ?case by (simp add: charBytes_def)
next
  case (Cons c cs)
  have len: "length cs \<le> length (drop 1 rest)" using Cons.prems by simp
  have one: "setUint8 (pre @ rest) off (of_char c)
             = Inr ((pre @ [of_nat (of_char c)]) @ drop 1 rest)"
    using Cons.prems storeBytes_seq [of off pre "[of_nat (of_char c)]" rest]
    by (simp add: setUint8_def)
  have "writeString ((pre @ [of_nat (of_char c)]) @ drop 1 rest) (Suc off) cs
        = Inr (((pre @ [of_nat (of_char c)]) @ charBytes cs) @ drop (length cs) (drop 1 rest))"
    by (rule Cons.IH) (use Cons.prems len in simp_all)
  then show ?case using one by (simp add: charBytes_def)
qed

text \<open>A loop whose body appends \<open>k\<close> bytes at the offset appends them all, in order.\<close>

lemma forEachE_seq:
  assumes step: "\<And>i pre rest. i \<in> set js \<Longrightarrow> k \<le> length rest \<Longrightarrow>
            body i (pre @ rest, length pre) = Inr ((pre @ g i) @ drop k rest, length pre + k)"
    and len: "\<And>i. i \<in> set js \<Longrightarrow> length (g i) = k"
    and fits: "k * length js \<le> length rest"
  shows "forEachE js body (pre @ rest, length pre)
         = Inr ((pre @ concat (map g js)) @ drop (k * length js) rest, length pre + k * length js)"
  using assms
proof (induction js arbitrary: pre rest)
  case Nil
  then show ?case by simp
next
  case (Cons j js)
  have k: "k \<le> length rest" using Cons.prems(3) by simp
  have first: "body j (pre @ rest, length pre) = Inr ((pre @ g j) @ drop k rest, length pre + k)"
    using Cons.prems(1) [of j rest pre] k by simp
  have fits': "k * length js \<le> length (drop k rest)" using Cons.prems(3) by simp
  have rest: "forEachE js body ((pre @ g j) @ drop k rest, length (pre @ g j))
     = Inr (((pre @ g j) @ concat (map g js)) @ drop (k * length js) (drop k rest),
            length (pre @ g j) + k * length js)"
    by (rule Cons.IH) (use Cons.prems fits' in auto)
  have lg: "length (g j) = k" using Cons.prems(2) by simp
  show ?case using first rest lg by (simp add: add.commute add.left_commute)
qed

lemma forEachE_cong:
  "(\<And>i s. i \<in> set js \<Longrightarrow> body i s = body' i s) \<Longrightarrow> forEachE js body s = forEachE js body' s"
  by (induction js arbitrary: s) (auto simp: bindE_def split: sum.splits)

lemma forEachE_collect:
  "forEachE js (\<lambda>i acc. Inr (acc @ [f i])) acc = Inr (acc @ map f js)"
  by (induction js arbitrary: acc) auto

lemma collectChannels_eq: "collectChannels b = Inr (channelData b)"
proof -
  have "collectChannels b
        = forEachE [0..<numberOfChannels b] (\<lambda>i acc. Inr (acc @ [channelData b ! i])) []"
    unfolding collectChannels_def
    by (rule forEachE_cong) (simp add: getChannelData_def)
  also have "\<dots> = Inr ([] @ map (\<lambda>i. channelData b ! i) [0..<numberOfChannels b])"
    by (rule forEachE_collect)
  also have "\<dots> = Inr (channelData b)"
    by (simp add: numberOfChannels_def map_nth)
  finally show ?thesis .
qed

lemma writeString_view:
  "length pre = off \<Longrightarrow> length s \<le> n \<Longrightarrow>
   writeString (seqView pre n) off s = Inr (seqView (pre @ charBytes s) (n - length s))"
  using writeString_seq [of off pre s "replicate n 0"] by (simp add: seqView_def)

lemma setUint32_view:
  "length pre = off \<Longrightarrow> 4 \<le> n \<Longrightarrow>
   setUint32 (seqView pre n) off v e = Inr (seqView (pre @ bytes32 (of_nat v) e) (n - 4))"
  using storeBytes_seq [of off pre "bytes32 (of_nat v) e" "replicate n 0"]
  by (simp add: seqView_def setUint32_def)

lemma setUint16_view:
  "length pre = off \<Longrightarrow> 2 \<le> n \<Longrightarrow>
   setUint16 (seqView pre n) off v e = Inr (seqView (pre @ bytes16 (of_nat v) e) (n - 2))"
  using storeBytes_seq [of off pre "bytes16 (of_nat v) e" "replicate n 0"]
  by (simp add: seqView_def setUint16_def)

text \<open>The thirteen header stores leave the header bytes, followed by the zeroed data area.\<close>

lemma header_written:
  fixes d :: nat and c r :: nat
  shows
  "bindE (writeString (replicate (44 + d) (0::byte)) 0 ''RIFF'') (\<lambda>view.
      bindE (setUint32 view 4 (44 + d - 8) True) (\<lambda>view.
      bindE (writeString view 8 ''WAVE'') (\<lambda>view.
      bindE (writeString view 12 ''fmt '') (\<lambda>view.
      bindE (setUint32 view 16 16 True) (\<lambda>view.
      bindE (setUint16 view 20 1 True) (\<lambda>view.
      bindE (setUint16 view 22 c True) (\<lambda>view.
      bindE (setUint32 view 24 r True) (\<lambda>view.
      bindE (setUint32 view 28 br True) (\<lambda>view.
      bindE (setUint16 view 32 ba True) (\<lambda>view.
      bindE (setUint16 view 34 16 True) (\<lambda>view.
      bindE (writeString view 36 ''data'') (\<lambda>view.
      bindE (setUint32 view 40 d True) k))))))))))))
   = k ((charBytes ''RIFF'' @ bytes32 (of_nat (36 + d)) True
     @ charBytes ''WAVE'' @ charBytes ''fmt '' @ bytes32 16 True @ bytes16 1 True
     @ bytes16 (of_nat c) True @ bytes32 (of_nat r) True
     @ bytes32 (of_nat br) True
     @ bytes16 (of_nat ba) True @ bytes16 16 True
     @ charBytes ''data'' @ bytes32 (of_nat d) True) @ replicate d 0)"
proof -
  have start: "replicate (44 + d) (0::byte) = seqView [] (44 + d)"
    by (simp add: seqView_def)
  show ?thesis
    unfolding start
    by (simp add: writeString_view setUint32_view setUint16_view del: writeString.simps)
       (simp add: seqView_def)
qed

lemma writeSample_seq:
  "2 \<le> length rest \<Longrightarrow>
   writeSample channels i j (pre @ rest, length pre)
   = Inr ((pre @ bytes16 (toInt16 (wavIntSample (readSample (channels ! j) i))) True) @ drop 2 rest,
          length pre + 2)"
  using storeBytes_seq [of "length pre" pre
      "bytes16 (toInt16 (wavIntSample (readSample (channels ! j) i))) True" rest]
  by (simp add: writeSample_def setInt16_def)

lemma length_frameBytes [simp]: "length (frameBytes channels c i) = 2 * c"
  by (simp add: frameBytes_def length_concat comp_def sum_list_triv)

lemma writeFrame_seq:
  assumes "2 * c \<le> length rest"
  shows "forEachE [0..<c] (writeSample channels i) (pre @ rest, length pre)
         = Inr ((pre @ frameBytes channels c i) @ drop (2 * c) rest, length pre + 2 * c)"
proof -
  have "forEachE [0..<c] (writeSample channels i) (pre @ rest, length pre)
        = Inr ((pre @ concat (map (\<lambda>j. bytes16 (toInt16 (wavIntSample (readSample (channels ! j) i))) True) [0..<c]))
                 @ drop (2 * length [0..<c]) rest, length pre + 2 * length [0..<c])"
    by (rule forEachE_seq) (use assms in \<open>simp_all add: writeSample_seq\<close>)
  then show ?thesis by (simp add: frameBytes_def)
qed

lemma writeSamples_seq:
  assumes "2 * c * n \<le> length rest"
  shows "writeSamples channels n c (pre @ rest, length pre)
         = Inr ((pre @ concat (map (frameBytes channels c) [0..<n])) @ drop (2 * c * n) rest,
                length pre + 2 * c * n)"
proof -
  have "forEachE [0..<n] (\<lambda>i. forEachE [0..<c] (writeSample channels i)) (pre @ rest, length pre)
        = Inr ((pre @ concat (map (frameBytes channels c) [0..<n]))
                 @ drop (2 * c * length [0..<n]) rest, length pre + 2 * c * length [0..<n])"
    by (rule forEachE_seq) (use assms in \<open>simp_all add: writeFrame_seq\<close>)
  then show ?thesis by (simp add: writeSamples_def)
qed

lemma length_wavHeader [simp]: "length (wavHeader b) = 44"
  by (simp add: wavHeader_def)

lemma length_concat_frames [simp]:
  "length (concat (map (frameBytes channels c) [0..<n])) = 2 * c * n"
  by (simp add: length_concat comp_def sum_list_triv)

text \<open>The encoder never throws, and its view ends as the header followed by the data.\<close>

lemma bufferToWav_layout: "bufferToWav b = Inr (wavHeader b @ wavData b)"
proof -
  let ?C = "numberOfChannels b" and ?N = "bufferLength b" and ?R = "sampleRate b"
  let ?d = "?N * ?C * 2"
  let ?k = "\<lambda>view. bindE (collectChannels b) (\<lambda>channels.
      bindE (writeSamples channels ?N ?C (view, 44)) (\<lambda>st. Inr (fst st)))"
  have "bufferToWav b =
      bindE (writeString (replicate (44 + ?d) (0::byte)) 0 ''RIFF'') (\<lambda>view.
      bindE (setUint32 view 4 (44 + ?d - 8) True) (\<lambda>view.
      bindE (writeString view 8 ''WAVE'') (\<lambda>view.
      bindE (writeString view 12 ''fmt '') (\<lambda>view.
      bindE (setUint32 view 16 16 True) (\<lambda>view.
      bindE (setUint16 view 20 1 True) (\<lambda>view.
      bindE (setUint16 view 22 ?C True) (\<lambda>view.
      bindE (setUint32 view 24 ?R True) (\<lambda>view.
      bindE (setUint32 view 28 (?R * ?C * 2) True) (\<lambda>view.
      bindE (setUint16 view 32 (?C * 2) True) (\<lambda>view.
      bindE (setUint16 view 34 16 True) (\<lambda>view.
      bindE (writeString view 36 ''data'') (\<lambda>view.
      bindE (setUint32 view 40 ?d True) ?k))))))))))))"
    by (simp add: bufferToWav_def Let_def del: writeString.simps)
  also have "\<dots> = ?k (wavHeader b @ replicate ?d 0)"
    unfolding wavHeader_def by (rule header_written)
  also have "\<dots> = bindE (writeSamples (channelData b) ?N ?C
                            (wavHeader b @ replicate ?d 0, length (wavHeader b)))
                      (\<lambda>st. Inr (fst st))"
    by (simp add: collectChannels_eq)
  also have "\<dots> = Inr (wavHeader b @ wavData b)"
    by (subst writeSamples_seq) (simp_all add: wavData_def mult.commute mult.left_commute)
  finally show ?thesis .
qed

subsection \<open>Reading the fields back\<close>

lemma split16: "(x::nat) mod 256 + 256 * (x div 256 mod 256) = x mod 65536"
  using mod_mult2_eq [of x 256 256] by simp

lemma split32:
  "(x::nat) mod 256 + 256 * (x div 256 mod 256) + 65536 * (x div 65536 mod 256)
     + 16777216 * (x div 16777216 mod 256) = x mod 4294967296"
  using mod_mult2_eq [of x 256 256] mod_mult2_eq [of x 65536 256] mod_mult2_eq [of x 16777216 256]
  by simp

lemma unat_bytes16:
  "unat (ucast (w :: 16 word) :: byte) + 256 * unat (ucast (drop_bit 8 w) :: byte) = unat w"
proof -
  have bound: "unat w < 65536" using unsigned_less [of w, where 'a = nat] by simp
  have b0: "unat (ucast w :: byte) = unat w mod 256"
    unfolding unsigned_ucast_eq take_bit_eq_mod by simp
  have b1: "unat (ucast (drop_bit 8 w) :: byte) = unat w div 256 mod 256"
    unfolding unsigned_ucast_eq unat_drop_bit_eq by (simp add: take_bit_eq_mod drop_bit_eq_div)
  have "unat (ucast w :: byte) + 256 * unat (ucast (drop_bit 8 w) :: byte) = unat w mod 65536"
    unfolding b0 b1 by (rule split16)
  then show ?thesis using bound by simp
qed

lemma unat_bytes32:
  "unat (ucast (w :: 32 word) :: byte) + 256 * unat (ucast (drop_bit 8 w) :: byte)
   + 65536 * unat (ucast (drop_bit 16 w) :: byte)
   + 16777216 * unat (ucast (drop_bit 24 w) :: byte) = unat w"
proof -
  have bound: "unat w < 4294967296" using unsigned_less [of w, where 'a = nat] by simp
  have b0: "unat (ucast w :: byte) = unat w mod 256"
    unfolding unsigned_ucast_eq take_bit_eq_mod by simp
  have b1: "unat (ucast (drop_bit 8 w) :: byte) = unat w div 256 mod 256"
    unfolding unsigned_ucast_eq unat_drop_bit_eq by (simp add: take_bit_eq_mod drop_bit_eq_div)
  have b2: "unat (ucast (drop_bit 16 w) :: byte) = unat w div 65536 mod 256"
    unfolding unsigned_ucast_eq unat_drop_bit_eq by (simp add: take_bit_eq_mod drop_bit_eq_div)
  have b3: "unat (ucast (drop_bit 24 w) :: byte) = unat w div 16777216 mod 256"
    unfolding unsigned_ucast_eq unat_drop_bit_eq by (simp add: take_bit_eq_mod drop_bit_eq_div)
  have "unat (ucast w :: byte) + 256 * unat (ucast (drop_bit 8 w) :: byte)
     + 65536 * unat (ucast (drop_bit 16 w) :: byte)
     + 16777216 * unat (ucast (drop_bit 24 w) :: byte)
     = unat w mod 4294967296"
    unfolding b0 b1 b2 b3 by (rule split32)
  then show ?thesis using bound by simp
qed

lemma length_concat_uniform:
  "(\<And>i. i < n \<Longrightarrow> length (f i) = k) \<Longrightarrow> length (concat (map f [0..<n])) = k * n"
  by (induction n) simp_all

lemma nth_concat_uniform:
  assumes "\<And>i. i < n \<Longrightarrow> length (f i) = k" "i < n" "r < k"
  shows "concat (map f [0..<n]) ! (k * i + r) = f i ! r"
  using assms
proof (induction n)
  case 0
  then show ?case by simp
next
  case (Suc n)
  have len: "length (concat (map f [0..<n])) = k * n"
    using Suc.prems(1) by (simp add: length_concat_uniform)
  show ?case
  proof (cases "i < n")
    case True
    then have "Suc i \<le> n" by simp
    then have "k * Suc i \<le> k * n" by (rule mult_le_mono2)
    then have "k * i + r < k * n" using Suc.prems(3) by simp
    then show ?thesis using Suc True len by (simp add: nth_append)
  next
    case False
    then have "i = n" using Suc.prems(2) by simp
    then show ?thesis using len Suc.prems(3) by (simp add: nth_append)
  qed
qed

lemma getUint16_skip:
  "length p \<le> off \<Longrightarrow> getUint16 (p @ q) off = getUint16 q (off - length p)"
  by (simp add: getUint16_def nth_append Suc_diff_le)

lemma getUint32_skip:
  "length p \<le> off \<Longrightarrow> getUint32 (p @ q) off = getUint32 q (off - length p)"
  by (simp add: getUint32_def nth_append Suc_diff_le)

lemma getInt16_skip:
  "length p \<le> off \<Longrightarrow> getInt16 (p @ q) off = getInt16 q (off - length p)"
  by (simp add: getInt16_def getUint16_skip)

lemma getUint16_here: "getUint16 (bytes16 w True @ q) 0 = unat w"
  using unat_bytes16 [of w] by (simp add: getUint16_def bytes16_def)

lemma getUint32_here: "getUint32 (bytes32 w True @ q) 0 = unat w"
  using unat_bytes32 [of w] by (simp add: getUint32_def bytes32_def)

lemma unat_of_nat16: "n < 65536 \<Longrightarrow> unat (of_nat n :: 16 word) = n"
  by (simp add: unsigned_of_nat take_bit_nat_eq_self)

lemma unat_of_nat32: "n < 4294967296 \<Longrightarrow> unat (of_nat n :: 32 word) = n"
  by (simp add: unsigned_of_nat take_bit_nat_eq_self)

text \<open>The sample of frame \<open>i\<close> and channel \<open>j\<close> sits at byte \<open>2 * (i * c + j)\<close> of the data.\<close>

lemma sample_position:
  assumes "i < n" "j < c"
  shows "getInt16 (concat (map (frameBytes channels c) [0..<n])) (2 * (i * c + j))
         = toInt16 (wavIntSample (readSample (channels ! j) i))"
proof -
  let ?g = "\<lambda>j. bytes16 (toInt16 (wavIntSample (readSample (channels ! j) i))) True"
  let ?D = "concat (map (frameBytes channels c) [0..<n])"
  have fr: "\<And>r. r < 2 \<Longrightarrow> frameBytes channels c i ! (2 * j + r) = ?g j ! r"
    unfolding frameBytes_def using assms(2) by (intro nth_concat_uniform) simp_all
  have d: "\<And>r. r < 2 \<Longrightarrow> ?D ! ((2 * c) * i + (2 * j + r)) = frameBytes channels c i ! (2 * j + r)"
    using assms by (intro nth_concat_uniform) simp_all
  have e0: "?D ! (2 * (i * c + j)) = ?g j ! 0"
    using d [of 0] fr [of 0] by (simp add: algebra_simps)
  have e1: "?D ! (2 * (i * c + j) + 1) = ?g j ! 1"
    using d [of 1] fr [of 1] by (simp add: algebra_simps)
  have "getUint16 ?D (2 * (i * c + j))
        = unat (toInt16 (wavIntSample (readSample (channels ! j) i)))"
    unfolding getUint16_def e0 e1 using unat_bytes16 by (simp add: bytes16_def)
  then show ?thesis by (simp add: getInt16_def)
qed

lemma wav_sample_at:
  assumes "i < bufferLength b" "j < numberOfChannels b"
  shows "getInt16 (wavHeader b @ wavData b) (44 + 2 * (i * numberOfChannels b + j))
         = toInt16 (wavIntSample (readSample (channelData b ! j) i))"
proof -
  have "getInt16 (wavHeader b @ wavData b) (44 + 2 * (i * numberOfChannels b + j))
        = getInt16 (wavData b) (2 * (i * numberOfChannels b + j))"
    by (simp add: getInt16_skip)
  also have "\<dots> = toInt16 (wavIntSample (readSample (channelData b ! j) i))"
    unfolding wavData_def using assms by (intro sample_position) simp_all
  finally show ?thesis .
qed

text \<open>
  C2. For a buffer with \<open>C\<close> channels, sample rate \<open>R\<close> and \<open>N\<close> frames whose header
  values fit their fields (the size and rate fields are 32 bits wide, the channel and
  block-align fields 16), the WAV encoder returns one byte buffer of \<open>44 + N * C * 2\<close>
  bytes: the markers RIFF, WAVE, fmt and data at bytes 0, 8, 12 and 36, the format tag 1,
  the channel count, the sample rate, the byte rate \<open>R * C * 2\<close>, the block align
  \<open>C * 2\<close>, 16 bits per sample and the data size \<open>N * C * 2\<close>, all little-endian,
  and from byte 44 on the samples, interleaved by frame: the two bytes at
  \<open>44 + 2 * (i * C + j)\<close> are, little-endian and as a signed 16-bit integer, sample
  \<open>i\<close> of channel \<open>j\<close> clamped to \<open>[-1, 1]\<close>, multiplied by 32768 when negative and
  by 32767 otherwise, and truncated towards zero (0 for a NaN sample).
\<close>

theorem bufferToWav_format:
  assumes "numberOfChannels b * 2 < 2 ^ 16"
    and "sampleRate b < 2 ^ 32"
    and "sampleRate b * numberOfChannels b * 2 < 2 ^ 32"
    and "36 + bufferLength b * numberOfChannels b * 2 < 2 ^ 32"
  shows "\<exists>w. bufferToWav b = Inr w
     \<and> length w = 44 + bufferLength b * numberOfChannels b * 2
     \<and> take 4 w = charBytes ''RIFF''
     \<and> getUint32 w 4 = 36 + bufferLength b * numberOfChannels b * 2
     \<and> take 4 (drop 8 w) = charBytes ''WAVE''
     \<and> take 4 (drop 12 w) = charBytes ''fmt ''
     \<and> getUint32 w 16 = 16
     \<and> getUint16 w 20 = 1
     \<and> getUint16 w 22 = numberOfChannels b
     \<and> getUint32 w 24 = sampleRate b
     \<and> getUint32 w 28 = sampleRate b * numberOfChannels b * 2
     \<and> getUint16 w 32 = numberOfChannels b * 2
     \<and> getUint16 w 34 = 16
     \<and> take 4 (drop 36 w) = charBytes ''data''
     \<and> getUint32 w 40 = bufferLength b * numberOfChannels b * 2
     \<and> (\<forall>i j. i < bufferLength b \<and> j < numberOfChannels b \<and> i < length (channelData b ! j) \<longrightarrow>
           sint (getInt16 w (44 + 2 * (i * numberOfChannels b + j)))
             = (case channelData b ! j ! i of
                  Num r \<Rightarrow> truncR (if max (- 1) (min 1 r) < 0 then max (- 1) (min 1 r) * 32768
                                    else max (- 1) (min 1 r) * 32767)
                | PosInf \<Rightarrow> 32767 | NegInf \<Rightarrow> - 32768 | NaN \<Rightarrow> 0))"
proof -
  let ?C = "numberOfChannels b" and ?N = "bufferLength b" and ?R = "sampleRate b"
  let ?w = "wavHeader b @ wavData b"
  have c16: "?C < 65536" and c2: "?C * 2 < 65536" using assms(1) by simp_all
  have r32: "?R < 4294967296" and br: "?R * ?C * 2 < 4294967296" using assms(2,3) by simp_all
  have d32: "?N * ?C * 2 < 4294967296" and f32: "36 + ?N * ?C * 2 < 4294967296"
    using assms(4) by simp_all
  have w: "bufferToWav b = Inr ?w" by (rule bufferToWav_layout)
  have len: "length ?w = 44 + ?N * ?C * 2"
    by (simp add: wavData_def mult.commute mult.left_commute)
  have riff: "take 4 ?w = charBytes ''RIFF''" by (simp add: wavHeader_def)
  have wave: "take 4 (drop 8 ?w) = charBytes ''WAVE''" by (simp add: wavHeader_def)
  have fmt: "take 4 (drop 12 ?w) = charBytes ''fmt ''" by (simp add: wavHeader_def)
  have data: "take 4 (drop 36 ?w) = charBytes ''data''" by (simp add: wavHeader_def)
  have f4: "getUint32 ?w 4 = 36 + ?N * ?C * 2"
    using f32
    by (simp add: wavHeader_def getUint32_skip getUint32_here unat_of_nat32
          del: of_nat_add of_nat_mult)
  have f16: "getUint32 ?w 16 = 16"
    by (simp add: wavHeader_def getUint32_skip getUint32_here)
  have f20: "getUint16 ?w 20 = 1"
    by (simp add: wavHeader_def getUint16_skip getUint16_here)
  have f22: "getUint16 ?w 22 = ?C"
    using c16 by (simp add: wavHeader_def getUint16_skip getUint16_here unat_of_nat16)
  have f24: "getUint32 ?w 24 = ?R"
    using r32 by (simp add: wavHeader_def getUint32_skip getUint32_here unat_of_nat32)
  have f28: "getUint32 ?w 28 = ?R * ?C * 2"
    using br
    by (simp add: wavHeader_def getUint32_skip getUint32_here unat_of_nat32
          del: of_nat_add of_nat_mult)
  have f32': "getUint16 ?w 32 = ?C * 2"
    using c2
    by (simp add: wavHeader_def getUint16_skip getUint16_here unat_of_nat16
          del: of_nat_add of_nat_mult)
  have f34: "getUint16 ?w 34 = 16"
    by (simp add: wavHeader_def getUint16_skip getUint16_here)
  have f40: "getUint32 ?w 40 = ?N * ?C * 2"
    using d32
    by (simp add: wavHeader_def getUint32_skip getUint32_here unat_of_nat32
          del: of_nat_add of_nat_mult)
  have smp: "\<forall>i j. i < ?N \<and> j < ?C \<and> i < length (channelData b ! j) \<longrightarrow>
           sint (getInt16 ?w (44 + 2 * (i * ?C + j)))
             = (case channelData b ! j ! i of
                  Num r \<Rightarrow> truncR (if max (- 1) (min 1 r) < 0 then max (- 1) (min 1 r) * 32768
                                    else max (- 1) (min 1 r) * 32767)
                | PosInf \<Rightarrow> 32767 | NegInf \<Rightarrow> - 32768 | NaN \<Rightarrow> 0)"
  proof (intro allI impI)
    fix i j
    assume h: "i < ?N \<and> j < ?C \<and> i < length (channelData b ! j)"
    have "getInt16 ?w (44 + 2 * (i * ?C + j))
          = toInt16 (wavIntSample (readSample (channelData b ! j) i))"
      using h by (intro wav_sample_at) simp_all
    also have "readSample (channelData b ! j) i = channelData b ! j ! i"
      using h by (simp add: readSample_def)
    finally show "sint (getInt16 ?w (44 + 2 * (i * ?C + j)))
             = (case channelData b ! j ! i of
                  Num r \<Rightarrow> truncR (if max (- 1) (min 1 r) < 0 then max (- 1) (min 1 r) * 32768
                                    else max (- 1) (min 1 r) * 32767)
                | PosInf \<Rightarrow> 32767 | NegInf \<Rightarrow> - 32768 | NaN \<Rightarrow> 0)"
      by (simp only: stored_sample)
  qed
  show ?thesis
    using w len riff wave fmt data f4 f16 f20 f22 f24 f28 f32' f34 f40 smp by blast
qed

text \<open>The first frame of the data is the first \<open>2 * C\<close> bytes after the header.\<close>

lemma take_first_frame:
  assumes "0 < n" "length (f 0) = k"
  shows "take k (concat (map f [0..<n])) = f 0"
proof -
  have "[0..<n] = 0 # [1..<n]" using assms(1) by (simp add: upt_conv_Cons)
  then show ?thesis using assms(2) by simp
qed

text \<open>
  The buffer of the specification's example, 2 channels, 44100 Hz and 1000 frames, with
  the samples 0.5 on the left and -1 on the right: the fields, the first and the last
  frame, and the first 48 bytes as they are written.
\<close>

theorem bufferToWav_format_witness:
  "\<exists>w. bufferToWav \<lparr>sampleRate = 44100,
          channelData = [replicate 1000 (Num 0.5), replicate 1000 (Num (- 1))]\<rparr> = Inr w
     \<and> length w = 4044 \<and> getUint16 w 22 = 2 \<and> getUint32 w 24 = 44100
     \<and> getUint32 w 28 = 176400 \<and> getUint16 w 32 = 4 \<and> getUint32 w 40 = 4000
     \<and> sint (getInt16 w 44) = 16383 \<and> sint (getInt16 w 46) = - 32768
     \<and> sint (getInt16 w 4040) = 16383 \<and> sint (getInt16 w 4042) = - 32768
     \<and> take 48 w = [82, 73, 70, 70, 196, 15, 0, 0, 87, 65, 86, 69, 102, 109, 116, 32,
                     16, 0, 0, 0, 1, 0, 2, 0, 68, 172, 0, 0, 16, 177, 2, 0, 4, 0, 16, 0,
                     100, 97, 116, 97, 160, 15, 0, 0, 255, 63, 0, 128]"
proof -
  define b where
    "b = \<lparr>sampleRate = 44100, channelData = [replicate 1000 (Num 0.5), replicate 1000 (Num (- 1))]\<rparr>"
  have C: "numberOfChannels b = 2" and N: "bufferLength b = 1000" and R: "sampleRate b = 44100"
    by (simp_all add: b_def numberOfChannels_def bufferLength_def)
  have ch: "channelData b = [replicate 1000 (Num 0.5), replicate 1000 (Num (- 1))]"
    by (simp add: b_def)
  have h1: "numberOfChannels b * 2 < 2 ^ 16" and h2: "sampleRate b < 2 ^ 32"
    and h3: "sampleRate b * numberOfChannels b * 2 < 2 ^ 32"
    and h4: "36 + bufferLength b * numberOfChannels b * 2 < 2 ^ 32"
    unfolding C N R by simp_all
  from bufferToWav_format [OF h1 h2 h3 h4] obtain w where
    w: "bufferToWav b = Inr w" and len: "length w = 44 + bufferLength b * numberOfChannels b * 2"
    and fields: "getUint16 w 22 = numberOfChannels b" "getUint32 w 24 = sampleRate b"
    "getUint32 w 28 = sampleRate b * numberOfChannels b * 2"
    "getUint16 w 32 = numberOfChannels b * 2"
    "getUint32 w 40 = bufferLength b * numberOfChannels b * 2"
    and smp: "\<forall>i j. i < bufferLength b \<and> j < numberOfChannels b \<and> i < length (channelData b ! j) \<longrightarrow>
           sint (getInt16 w (44 + 2 * (i * numberOfChannels b + j)))
             = (case channelData b ! j ! i of
                  Num r \<Rightarrow> truncR (if max (- 1) (min 1 r) < 0 then max (- 1) (min 1 r) * 32768
                                    else max (- 1) (min 1 r) * 32767)
                | PosInf \<Rightarrow> 32767 | NegInf \<Rightarrow> - 32768 | NaN \<Rightarrow> 0)"
    by blast
  have hdr: "length w = 4044 \<and> getUint16 w 22 = 2
     \<and> getUint32 w 24 = 44100 \<and> getUint32 w 28 = 176400 \<and> getUint16 w 32 = 4
     \<and> getUint32 w 40 = 4000"
    using len fields unfolding C N R by simp
  have s00: "sint (getInt16 w 44) = 16383"
    using smp [rule_format, of 0 0] unfolding C N ch by (simp add: truncR_def)
  have s01: "sint (getInt16 w 46) = - 32768"
    using smp [rule_format, of 0 1] unfolding C N ch by (simp add: truncR_def)
  have s10: "sint (getInt16 w 4040) = 16383"
    using smp [rule_format, of 999 0] unfolding C N ch by (simp add: truncR_def)
  have s11: "sint (getInt16 w 4042) = - 32768"
    using smp [rule_format, of 999 1] unfolding C N ch by (simp add: truncR_def)
  have lay: "w = wavHeader b @ wavData b" using w bufferToWav_layout [of b] by simp
  have hb: "wavHeader b = [82, 73, 70, 70, 196, 15, 0, 0, 87, 65, 86, 69, 102, 109, 116, 32,
                     16, 0, 0, 0, 1, 0, 2, 0, 68, 172, 0, 0, 16, 177, 2, 0, 4, 0, 16, 0,
                     100, 97, 116, 97, 160, 15, 0, 0]"
    unfolding wavHeader_def C N R by (simp add: charBytes_def bytes32_def bytes16_def)
  have u2: "[0..<2] = [0, Suc 0]" by (simp add: numeral_2_eq_2)
  have f0: "frameBytes (channelData b) 2 0 = [255, 63, 0, 128]"
    unfolding frameBytes_def ch u2
    by (simp add: readSample_def bytes16_def wavIntSample_Num truncR_def)
  have "take 4 (wavData b) = frameBytes (channelData b) 2 0"
    unfolding wavData_def C N by (rule take_first_frame) simp_all
  then have d4: "take 4 (wavData b) = [255, 63, 0, 128]" by (simp only: f0)
  have "take 48 (wavHeader b @ wavData b) = wavHeader b @ take 4 (wavData b)" by simp
  then have bytes: "take 48 w = [82, 73, 70, 70, 196, 15, 0, 0, 87, 65, 86, 69, 102, 109, 116, 32,
                     16, 0, 0, 0, 1, 0, 2, 0, 68, 172, 0, 0, 16, 177, 2, 0, 4, 0, 16, 0,
                     100, 97, 116, 97, 160, 15, 0, 0, 255, 63, 0, 128]"
    unfolding lay by (simp only: hb d4 append.simps)
  show ?thesis using w hdr s00 s01 s10 s11 bytes unfolding b_def by blast
qed

section \<open>Properties of the MP3 encoder\<close>

declare convertLoop.simps [simp del]
declare encodeLoop.simps [simp del]

lemma convertLoop_inv:
  "length a = length f \<Longrightarrow> i \<le> length f \<Longrightarrow>
   convertLoop f i a = take i a @ map (\<lambda>x. toInt16 (mp3IntSample x)) (drop i f)"
proof (induction f i a rule: convertLoop.induct)
  case (1 f i a)
  show ?case
  proof (cases "i < length f")
    case True
    let ?c = "toInt16 (mp3IntSample (f ! i))"
    have "convertLoop f i a = convertLoop f (i + 1) (a[i := ?c])"
      using True by (subst convertLoop.simps) simp
    also have "\<dots> = take (i + 1) (a[i := ?c]) @ map (\<lambda>x. toInt16 (mp3IntSample x)) (drop (i + 1) f)"
      using True "1.prems" by (intro "1.IH") simp_all
    also have "take (i + 1) (a[i := ?c]) = take i a @ [?c]"
      using True "1.prems" by (simp add: take_Suc_conv_app_nth)
    also have "(take i a @ [?c]) @ map (\<lambda>x. toInt16 (mp3IntSample x)) (drop (i + 1) f)
               = take i a @ map (\<lambda>x. toInt16 (mp3IntSample x)) (drop i f)"
      using True by (simp add: Cons_nth_drop_Suc [symmetric])
    finally show ?thesis .
  next
    case False
    then show ?thesis using "1.prems" by (subst convertLoop.simps) simp
  qed
qed

lemma convertTo16Bit_map: "convertTo16Bit f = map (\<lambda>x. toInt16 (mp3IntSample x)) f"
  by (simp add: convertTo16Bit_def convertLoop_inv)

lemma chunk_count: "k < (n + 1151) div 1152 \<longleftrightarrow> 1152 * k < (n::nat)"
proof -
  have "k < (n + 1151) div 1152 \<longleftrightarrow> Suc k \<le> (n + 1151) div 1152" by (simp add: Suc_le_eq)
  also have "\<dots> \<longleftrightarrow> Suc k * 1152 \<le> n + 1151"
    by (rule less_eq_div_iff_mult_less_eq) simp
  also have "\<dots> \<longleftrightarrow> 1152 * k < n" by simp linarith
  finally show ?thesis .
qed

lemma encodeLoop_feed:
  assumes "m = (length L + 1151) div 1152" "k \<le> m"
  shows "encodeLoop enc L R (1152 * k) st acc =
     (fst (feed enc st (map (\<lambda>k. (take 1152 (drop (1152 * k) L), take 1152 (drop (1152 * k) R))) [k..<m])),
      acc @ filter (\<lambda>out. out \<noteq> [])
              (snd (feed enc st (map (\<lambda>k. (take 1152 (drop (1152 * k) L), take 1152 (drop (1152 * k) R))) [k..<m]))))"
  using assms(2)
proof (induction "m - k" arbitrary: k st acc)
  case 0
  then have "k = m" by simp
  then have "\<not> 1152 * k < length L" using chunk_count [of k "length L"] assms(1) by simp
  then show ?case using \<open>k = m\<close> by (subst encodeLoop.simps) simp
next
  case (Suc d)
  then have lt: "k < m" by simp
  then have inb: "1152 * k < length L" using chunk_count [of k "length L"] assms(1) by simp
  let ?chunk = "\<lambda>k. (take 1152 (drop (1152 * k) L), take 1152 (drop (1152 * k) R))"
  let ?r = "encodeBuffer enc st (fst (?chunk k)) (snd (?chunk k))"
  have step: "encodeLoop enc L R (1152 * k) st acc
      = encodeLoop enc L R (1152 * Suc k) (fst ?r) (if length (snd ?r) > 0 then acc @ [snd ?r] else acc)"
    using inb by (subst encodeLoop.simps) (simp add: subarray_def Let_def add.commute)
  have d: "d = m - Suc k" using Suc.hyps(2) by simp
  have le: "Suc k \<le> m" using lt by simp
  have up: "[k..<m] = k # [Suc k..<m]" using lt by (simp add: upt_conv_Cons)
  show ?case
    unfolding step Suc.hyps(1) [OF d le] up
    by (simp add: Let_def)
qed

lemma concat_chunks:
  "concat (map (\<lambda>k. take c (drop (c * k) xs)) [0..<m]) = take (c * m) xs"
proof (induction m)
  case 0
  then show ?case by simp
next
  case (Suc m)
  have "take (c * Suc m) xs = take (c * m) xs @ take c (drop (c * m) xs)"
    using take_add [of "c * m" c xs] by (simp add: add.commute)
  then show ?case using Suc by simp
qed

lemma chunks_cover: "length xs \<le> 1152 * ((length xs + 1151) div 1152)"
proof -
  have "\<not> (length xs + 1151) div 1152 < (length xs + 1151) div 1152" by simp
  then have "\<not> 1152 * ((length xs + 1151) div 1152) < length xs"
    using chunk_count [of "(length xs + 1151) div 1152" "length xs"] by blast
  then show ?thesis by simp
qed

lemma length_chunkPairs [simp]: "length (chunkPairs l r) = (length l + 1151) div 1152"
  by (simp add: chunkPairs_def)

lemma concat_fst_chunkPairs: "concat (map fst (chunkPairs l r)) = l"
proof -
  have "concat (map fst (chunkPairs l r))
        = concat (map (\<lambda>k. take 1152 (drop (1152 * k) l)) [0..<(length l + 1151) div 1152])"
    by (simp add: chunkPairs_def comp_def)
  also have "\<dots> = take (1152 * ((length l + 1151) div 1152)) l" by (rule concat_chunks)
  also have "\<dots> = l" using chunks_cover [of l] by simp
  finally show ?thesis .
qed

lemma concat_snd_chunkPairs:
  assumes "length r = length l"
  shows "concat (map snd (chunkPairs l r)) = r"
proof -
  have "concat (map snd (chunkPairs l r))
        = concat (map (\<lambda>k. take 1152 (drop (1152 * k) r)) [0..<(length l + 1151) div 1152])"
    by (simp add: chunkPairs_def comp_def)
  also have "\<dots> = take (1152 * ((length l + 1151) div 1152)) r" by (rule concat_chunks)
  also have "\<dots> = r" using chunks_cover [of l] assms by simp
  finally show ?thesis .
qed

lemma chunk_full:
  assumes "Suc k < length (chunkPairs l r)" "length r = length l"
  shows "length (fst (chunkPairs l r ! k)) = 1152 \<and> length (snd (chunkPairs l r ! k)) = 1152"
proof -
  have "1152 * Suc k < length l" using assms(1) chunk_count [of "Suc k" "length l"] by simp
  moreover have "k < (length l + 1151) div 1152" using assms(1) by simp
  ultimately show ?thesis using assms(2) by (simp add: chunkPairs_def)
qed

lemma chunk_sizes:
  assumes "c \<in> set (chunkPairs l r)" "length r = length l"
  shows "0 < length (fst c) \<and> length (fst c) \<le> 1152 \<and> length (snd c) = length (fst c)"
proof -
  from assms(1) obtain k where k: "k < (length l + 1151) div 1152"
    and c: "c = (take 1152 (drop (1152 * k) l), take 1152 (drop (1152 * k) r))"
    by (auto simp: chunkPairs_def)
  have "1152 * k < length l" using k chunk_count [of k "length l"] by simp
  then show ?thesis using c assms(2) by simp
qed

lemma concat_filter_nonempty: "concat (filter (\<lambda>out. out \<noteq> []) xs) = concat xs"
  by (induction xs) auto

lemma wfBuffer_channels:
  assumes "wfBuffer b"
  shows "0 < numberOfChannels b" and "length (channelData b ! 0) = bufferLength b"
    and "j < numberOfChannels b \<Longrightarrow> length (channelData b ! j) = bufferLength b"
  using assms by (auto simp: wfBuffer_def numberOfChannels_def list_all_length)

lemma mp3Samples_wf:
  assumes "wfBuffer b"
  shows "mp3Samples b =
     Inr (map (\<lambda>x. toInt16 (mp3IntSample x)) (channelData b ! 0),
          map (\<lambda>x. toInt16 (mp3IntSample x))
              (channelData b ! (if 1 < numberOfChannels b then 1 else 0)))"
  using wfBuffer_channels(1) [OF assms]
  by (simp add: mp3Samples_def getChannelData_def convertTo16Bit_map Let_def)

lemma mp3Data_eq:
  assumes "mp3Samples b = Inr (L, R)"
  shows "mp3Data enc b =
    Inr (filter (\<lambda>out. out \<noteq> [])
          (snd (feed enc (newMp3Encoder enc (numberOfChannels b) (sampleRate b) 128) (chunkPairs L R))
           @ [flush enc (fst (feed enc (newMp3Encoder enc (numberOfChannels b) (sampleRate b) 128) (chunkPairs L R)))]))"
proof -
  have loop: "\<And>st. encodeLoop enc L R 0 st [] =
      (fst (feed enc st (chunkPairs L R)), filter (\<lambda>out. out \<noteq> []) (snd (feed enc st (chunkPairs L R))))"
    using encodeLoop_feed [of "(length L + 1151) div 1152" L 0 enc R _ "[]"]
    by (simp add: chunkPairs_def)
  show ?thesis
    by (simp add: mp3Data_def assms Let_def loop)
qed

text \<open>
  C8, as amended. For every well-formed buffer and every encoder, the MP3 encoder is fed
  the converted samples as the chunk pairs of \<open>chunkPairs\<close>, in input order: they
  concatenate to the two inputs, every chunk but the last holds 1152 samples per channel,
  and the last holds the remaining 1 to 1152 samples, without padding. The array of parts
  is every non-empty output in emission order, followed by the output of \<open>flush\<close> if it
  is non-empty, and the payload is the concatenation of all outputs followed by the flush
  output.
\<close>

theorem mp3_chunked_encoding:
  assumes "wfBuffer b"
  shows "\<exists>L R. mp3Samples b = Inr (L, R) \<and> length L = bufferLength b \<and> length R = bufferLength b
     \<and> (let st0 = newMp3Encoder enc (numberOfChannels b) (sampleRate b) 128;
            run = feed enc st0 (chunkPairs L R);
            final = flush enc (fst run)
        in mp3Data enc b = Inr (filter (\<lambda>out. out \<noteq> []) (snd run @ [final]))
         \<and> bufferToMp3 enc b = Inr (concat (snd run) @ final))
     \<and> concat (map fst (chunkPairs L R)) = L \<and> concat (map snd (chunkPairs L R)) = R
     \<and> (\<forall>k. Suc k < length (chunkPairs L R) \<longrightarrow>
           length (fst (chunkPairs L R ! k)) = 1152 \<and> length (snd (chunkPairs L R ! k)) = 1152)
     \<and> (\<forall>c \<in> set (chunkPairs L R).
           0 < length (fst c) \<and> length (fst c) \<le> 1152 \<and> length (snd c) = length (fst c))"
proof -
  let ?L = "map (\<lambda>x. toInt16 (mp3IntSample x)) (channelData b ! 0)"
  let ?R = "map (\<lambda>x. toInt16 (mp3IntSample x))
              (channelData b ! (if 1 < numberOfChannels b then 1 else 0))"
  have s: "mp3Samples b = Inr (?L, ?R)" by (rule mp3Samples_wf [OF assms])
  have lenL: "length ?L = bufferLength b" using wfBuffer_channels(2) [OF assms] by simp
  have lenR: "length ?R = bufferLength b"
    using wfBuffer_channels(1,3) [OF assms] by simp
  have eq: "length ?R = length ?L" using lenL lenR by simp
  have d: "mp3Data enc b =
    Inr (filter (\<lambda>out. out \<noteq> [])
          (snd (feed enc (newMp3Encoder enc (numberOfChannels b) (sampleRate b) 128) (chunkPairs ?L ?R))
           @ [flush enc (fst (feed enc (newMp3Encoder enc (numberOfChannels b) (sampleRate b) 128) (chunkPairs ?L ?R)))]))"
    by (rule mp3Data_eq [OF s])
  have run: "let st0 = newMp3Encoder enc (numberOfChannels b) (sampleRate b) 128;
            run = feed enc st0 (chunkPairs ?L ?R);
            final = flush enc (fst run)
        in mp3Data enc b = Inr (filter (\<lambda>out. out \<noteq> []) (snd run @ [final]))
         \<and> bufferToMp3 enc b = Inr (concat (snd run) @ final)"
    unfolding Let_def bufferToMp3_def d
    by (simp add: concat_filter_nonempty del: filter_append filter.simps)
  have c1: "concat (map fst (chunkPairs ?L ?R)) = ?L" by (rule concat_fst_chunkPairs)
  have c2: "concat (map snd (chunkPairs ?L ?R)) = ?R" by (rule concat_snd_chunkPairs [OF eq])
  have full: "\<forall>k. Suc k < length (chunkPairs ?L ?R) \<longrightarrow>
           length (fst (chunkPairs ?L ?R ! k)) = 1152 \<and> length (snd (chunkPairs ?L ?R ! k)) = 1152"
    using chunk_full [OF _ eq] by blast
  have sizes: "\<forall>c \<in> set (chunkPairs ?L ?R).
           0 < length (fst c) \<and> length (fst c) \<le> 1152 \<and> length (snd c) = length (fst c)"
    using chunk_sizes [OF _ eq] by blast
  show ?thesis
    using s lenL lenR run c1 c2 full sizes by blast
qed



text \<open>A mono buffer of 1153 samples is fed as a chunk of 1152 and a chunk of 1.\<close>

theorem mp3_chunked_encoding_witness:
  "wfBuffer \<lparr>sampleRate = 8000, channelData = [replicate 1153 (Num 1)]\<rparr>
   \<and> (\<exists>L R. mp3Samples \<lparr>sampleRate = 8000, channelData = [replicate 1153 (Num 1)]\<rparr> = Inr (L, R)
          \<and> map (\<lambda>c. length (fst c)) (chunkPairs L R) = [1152, 1])
   \<and> bufferToMp3 lowByteEncoder \<lparr>sampleRate = 8000, channelData = [replicate 1153 (Num 1)]\<rparr>
      = Inr (replicate 1153 255 @ [129])"
proof -
  define b where "b = \<lparr>sampleRate = 8000, channelData = [replicate 1153 (Num 1)]\<rparr>"
  have wf: "wfBuffer b" by (simp add: b_def wfBuffer_def bufferLength_def)
  have C: "numberOfChannels b = 1" by (simp add: b_def numberOfChannels_def)
  have s: "mp3Samples b = Inr (replicate 1153 32767, replicate 1153 32767)"
    unfolding mp3Samples_wf [OF wf] C
    by (simp add: b_def mp3_eq_wav wavIntSample_Num truncR_def)
  from mp3_chunked_encoding [OF wf, of lowByteEncoder] obtain L R where
    s': "mp3Samples b = Inr (L, R)"
    and run: "let st0 = newMp3Encoder lowByteEncoder (numberOfChannels b) (sampleRate b) 128;
            run = feed lowByteEncoder st0 (chunkPairs L R);
            final = flush lowByteEncoder (fst run)
        in mp3Data lowByteEncoder b = Inr (filter (\<lambda>out. out \<noteq> []) (snd run @ [final]))
         \<and> bufferToMp3 lowByteEncoder b = Inr (concat (snd run) @ final)"
    by blast
  have LR: "L = replicate 1153 32767" "R = replicate 1153 32767" using s s' by simp_all
  have cp: "chunkPairs L R = [(replicate 1152 32767, replicate 1152 32767), ([32767], [32767])]"
  proof -
    have u: "[0..<2] = [0, Suc 0]" by (simp add: numeral_2_eq_2)
    show ?thesis unfolding LR by (simp add: chunkPairs_def u)
  qed
  have low: "(ucast (32767 :: 16 word) :: byte) = 255" by simp
  have tgt: "replicate 1153 (255 :: byte) = replicate 1152 255 @ [255]"
    using replicate_add [of 1152 1 "255 :: byte"] by simp
  have "bufferToMp3 lowByteEncoder b = Inr (replicate 1152 255 @ [255] @ [129])"
    using run unfolding cp Let_def by (simp add: lowByteEncoder_def low)
  then have out: "bufferToMp3 lowByteEncoder b = Inr (replicate 1153 255 @ [129])"
    unfolding tgt by simp
  have lens: "map (\<lambda>c. length (fst c)) (chunkPairs L R) = [1152, 1]" unfolding cp by simp
  have "\<exists>L R. mp3Samples b = Inr (L, R)
          \<and> map (\<lambda>c. length (fst c)) (chunkPairs L R) = [1152, 1]"
    using s' lens by (intro exI [of _ L] exI [of _ R] conjI)
  then show ?thesis using wf out unfolding b_def by simp
qed

text \<open>
  C8 as stated fails for a buffer whose length is not a multiple of 1152: the chunks are
  not all of the fixed size. Of a mono buffer of 1153 samples the encoder is given 1152
  samples per channel in its first call and 1 sample per channel in its second, and the
  chunk loop makes no third call.
\<close>

theorem mp3_fixed_chunks_counterexample:
  "mp3Samples \<lparr>sampleRate = 8000, channelData = [replicate 1153 (Num 1)]\<rparr>
     = Inr (replicate 1153 32767, replicate 1153 32767)
   \<and> fst (encodeLoop chunkSizeEncoder (replicate 1153 32767) (replicate 1153 32767) 0
             (newMp3Encoder chunkSizeEncoder 1 8000 128) [])
     = [(1152, 1152), (1, 1)]"
proof -
  define b where "b = \<lparr>sampleRate = 8000, channelData = [replicate 1153 (Num 1)]\<rparr>"
  have wf: "wfBuffer b" by (simp add: b_def wfBuffer_def bufferLength_def)
  have C: "numberOfChannels b = 1" by (simp add: b_def numberOfChannels_def)
  have s: "mp3Samples b = Inr (replicate 1153 32767, replicate 1153 32767)"
    unfolding mp3Samples_wf [OF wf] C
    by (simp add: b_def mp3_eq_wav wavIntSample_Num truncR_def)
  have loop: "fst (encodeLoop chunkSizeEncoder (replicate 1153 32767) (replicate 1153 32767) 0
             (newMp3Encoder chunkSizeEncoder 1 8000 128) [])
     = [(1152, 1152), (1, 1)]"
    by (simp add: encodeLoop.simps subarray_def chunkSizeEncoder_def Let_def)
  show ?thesis using s loop unfolding b_def by simp
qed

section \<open>Properties of the export and the History Store\<close>

subsection \<open>What a download changes\<close>

lemma renderAndEncode_renderingFormat [simp]:
  "renderAndEncode env ab (s\<lparr>renderingFormat := f\<rparr>) = renderAndEncode env ab s"
  by (simp add: renderAndEncode_def offlineGraph_def)

lemma handleDownload_none:
  "audioBuffer s = None \<Longrightarrow> handleDownload env fmt s = (Inr (), s)"
  by (simp add: handleDownload_def)

lemma handleDownload_fail:
  assumes "audioBuffer s = Some ab" "renderAndEncode env ab s = Inl e"
  shows "handleDownload env fmt s =
     (Inr (), s\<lparr>renderingFormat := None,
                alerts := alerts s @ [''Failed to process audio for '' @ formatName fmt @ '' download.'']\<rparr>)"
  using assms by (simp add: handleDownload_def tryCatchFinally_def tryBlock_def Let_def)

lemma handleDownload_ok:
  assumes "audioBuffer s = Some ab" "renderAndEncode env ab s = Inr item"
  shows "fst (handleDownload env fmt s) = Inr ()"
    and "history (snd (handleDownload env fmt s)) = take 10 (item # history s)"
    and "audioBuffer (snd (handleDownload env fmt s)) = audioBuffer s"
    and "renderingFormat (snd (handleDownload env fmt s)) = None"
  using assms
  by (simp_all add: handleDownload_def tryCatchFinally_def tryBlock_def Let_def
        split: option.splits)

lemma handleDownload_caught: "fst (handleDownload env fmt s) = Inr ()"
  by (simp add: handleDownload_def tryCatchFinally_def tryBlock_def Let_def
        split: option.splits sum.splits)

lemma handleDownload_frame:
  "delayTime (snd (handleDownload env fmt s)) = delayTime s"
  "feedback (snd (handleDownload env fmt s)) = feedback s"
  "isClarityOn (snd (handleDownload env fmt s)) = isClarityOn s"
  "voiceBoost (snd (handleDownload env fmt s)) = voiceBoost s"
  "clarity (snd (handleDownload env fmt s)) = clarity s"
  "liveNodes (snd (handleDownload env fmt s)) = liveNodes s"
  "audioBuffer (snd (handleDownload env fmt s)) = audioBuffer s"
  "fileName (snd (handleDownload env fmt s)) = fileName s"
  by (simp_all add: handleDownload_def tryCatchFinally_def tryBlock_def Let_def
        split: option.splits sum.splits)

lemma handleDownload_history:
  "history (snd (handleDownload env fmt s)) =
     (case audioBuffer s of None \<Rightarrow> history s
      | Some ab \<Rightarrow> (case renderAndEncode env ab s of Inl e \<Rightarrow> history s
                    | Inr item \<Rightarrow> take 10 (item # history s)))"
  by (simp add: handleDownload_def tryCatchFinally_def tryBlock_def Let_def
        split: option.splits sum.splits)

lemma history_loadFile: "history (loadFile env r name decoded s) = history s"
  by (simp add: loadFile_def setupAudioContext_def Let_def split: option.splits sum.splits)

lemma history_other_events:
  "history (startRecording refused s) = history s"
  "history (stopRecording s) = history s"
  "history (recorderOnstop env isoDate decoded s) = history s"
  "history (handleHistoryLoad item s) = history s"
  "history (setDelayTime v s) = history s"
  "history (setFeedback v s) = history s"
  "history (setIsClarityOn b s) = history s"
  "history (setVoiceBoost v s) = history s"
  "history (setClarity v s) = history s"
  by (simp_all add: history_loadFile startRecording_def stopRecording_def recorderOnstop_def
        handleHistoryLoad_def setDelayTime_def setFeedback_def
        setIsClarityOn_def setVoiceBoost_def setClarity_def
        delayTimeEffect_def feedbackEffect_def isClarityOnEffect_def voiceBoostEffect_def
        clarityEffect_def Let_def split: option.splits sum.splits list.splits)

lemma history_appStep:
  "length (history s) \<le> 10 \<Longrightarrow> history (appStep ev s) = take 10 (newItems ev s @ history s)"
  by (cases ev)
     (simp_all add: handleDownload_history history_loadFile history_other_events
        split: option.splits sum.splits)

lemma newItems_cases:
  "newItems ev s = []
   \<or> (\<exists>env fmt ab item. ev = Download env fmt \<and> audioBuffer s = Some ab
        \<and> renderAndEncode env ab s = Inr item \<and> newItems ev s = [item])"
  by (cases ev) (auto split: option.splits sum.splits)

lemma history_step_cases:
  "history (appStep ev s) = history s
   \<or> (\<exists>env fmt ab item. ev = Download env fmt \<and> audioBuffer s = Some ab
        \<and> renderAndEncode env ab s = Inr item
        \<and> history (appStep ev s) = take 10 (item # history s))"
  by (cases ev)
     (auto simp: handleDownload_history history_loadFile history_other_events
        split: option.splits sum.splits)

lemma history_step_bound: "length (history s) \<le> 10 \<Longrightarrow> length (history (appStep ev s)) \<le> 10"
  using history_step_cases [of ev s] by auto

lemma history_run_bound: "length (history s) \<le> 10 \<Longrightarrow> length (history (run evs s)) \<le> 10"
  by (induction evs arbitrary: s) (simp_all add: history_step_bound)

lemma take_append_take: "take n (xs @ take n ys) = take n (xs @ ys)"
  by (simp add: take_append min_def)

lemma rev_newItems: "rev (newItems ev s) = newItems ev s"
  using newItems_cases [of ev s] by auto

lemma history_run_created:
  "length (history s) \<le> 10 \<Longrightarrow>
   history (run evs s) = take 10 (rev (createdItems evs s) @ history s)"
proof (induction evs arbitrary: s)
  case Nil
  then show ?case by simp
next
  case (Cons ev evs)
  have b: "length (history (appStep ev s)) \<le> 10" using Cons.prems by (rule history_step_bound)
  have "history (run (ev # evs) s)
        = take 10 (rev (createdItems evs (appStep ev s)) @ history (appStep ev s))"
    using Cons.IH [OF b] by simp
  also have "\<dots> = take 10 (rev (createdItems evs (appStep ev s))
                          @ take 10 (newItems ev s @ history s))"
    by (simp only: history_appStep [OF Cons.prems])
  also have "\<dots> = take 10 (rev (createdItems evs (appStep ev s)) @ newItems ev s @ history s)"
    by (rule take_append_take)
  also have "\<dots> = take 10 (rev (createdItems (ev # evs) s) @ history s)"
    by (simp add: rev_newItems)
  finally show ?case .
qed

text \<open>
  C4. The History Store holds at most 10 entries at all times, newest first: after any
  list of events it is the ten latest created items, the latest in front. An event either
  leaves the store as it is or is a successful export, which puts the new item in front
  of the first nine old entries, themselves unchanged and in their order; when ten
  entries are stored, exactly the last one, the oldest, is dropped.
\<close>

theorem history_store:
  "(\<forall>evs :: 'st event list. length (history (run evs initialState)) \<le> 10
        \<and> history (run evs initialState) = take 10 (rev (createdItems evs initialState)))
   \<and> (\<forall>(ev :: 'st event) s.
         history (appStep ev s) = history s
         \<or> (\<exists>env fmt ab item. ev = Download env fmt \<and> audioBuffer s = Some ab
               \<and> renderAndEncode env ab s = Inr item
               \<and> history (appStep ev s) = take 10 (item # history s)))
   \<and> (\<forall>(env :: 'st host) fmt s ab item.
         audioBuffer s = Some ab \<and> renderAndEncode env ab s = Inr item \<longrightarrow>
           history (snd (handleDownload env fmt s)) = item # take 9 (history s)
         \<and> (length (history s) < 10 \<longrightarrow>
               history (snd (handleDownload env fmt s)) = item # history s)
         \<and> (length (history s) = 10 \<longrightarrow>
               history (snd (handleDownload env fmt s)) = item # butlast (history s)))"
proof -
  have h0: "length (history initialState) \<le> 10" by (simp add: initialState_def)
  have e0: "history initialState = []" by (simp add: initialState_def)
  have a: "\<forall>evs :: 'st event list. length (history (run evs initialState)) \<le> 10
        \<and> history (run evs initialState) = take 10 (rev (createdItems evs initialState))"
  proof (intro allI conjI)
    fix evs :: "'st event list"
    show "length (history (run evs initialState)) \<le> 10" by (rule history_run_bound [OF h0])
    show "history (run evs initialState) = take 10 (rev (createdItems evs initialState))"
      using history_run_created [OF h0, of evs] e0 by simp
  qed
  have b: "\<forall>(ev :: 'st event) s.
         history (appStep ev s) = history s
         \<or> (\<exists>env fmt ab item. ev = Download env fmt \<and> audioBuffer s = Some ab
               \<and> renderAndEncode env ab s = Inr item
               \<and> history (appStep ev s) = take 10 (item # history s))"
    using history_step_cases by blast
  have c: "\<forall>(env :: 'st host) fmt s ab item.
         audioBuffer s = Some ab \<and> renderAndEncode env ab s = Inr item \<longrightarrow>
           history (snd (handleDownload env fmt s)) = item # take 9 (history s)
         \<and> (length (history s) < 10 \<longrightarrow>
               history (snd (handleDownload env fmt s)) = item # history s)
         \<and> (length (history s) = 10 \<longrightarrow>
               history (snd (handleDownload env fmt s)) = item # butlast (history s))"
  proof (intro allI impI)
    fix env :: "'st host" and fmt s ab item
    assume h: "audioBuffer s = Some ab \<and> renderAndEncode env ab s = Inr item"
    have t: "history (snd (handleDownload env fmt s)) = take 10 (item # history s)"
      using handleDownload_ok(2) h by blast
    have "take 10 (item # history s) = item # take 9 (history s)" by (simp add: take_Cons')
    moreover have "length (history s) = 10 \<longrightarrow> take 9 (history s) = butlast (history s)"
      by (simp add: butlast_conv_take)
    ultimately show "history (snd (handleDownload env fmt s)) = item # take 9 (history s)
         \<and> (length (history s) < 10 \<longrightarrow>
               history (snd (handleDownload env fmt s)) = item # history s)
         \<and> (length (history s) = 10 \<longrightarrow>
               history (snd (handleDownload env fmt s)) = item # butlast (history s))"
      using t by simp
  qed
  show ?thesis using a b c by blast
qed

text \<open>
  C5. If an export fails in the offline render, in the WAV encoding or in the MP3
  encoding, the handler returns normally (the exception is caught), the current audio
  buffer, the History Store and the downloads are as before, and the state differs from
  the state before only by the alert shown and the cleared rendering flag.
\<close>

theorem export_failure_leaves_state:
  assumes "audioBuffer s = Some ab"
    and "startRendering env (offlineGraph env s) ab = Inl e
         \<or> (\<exists>renderedBuffer. startRendering env (offlineGraph env s) ab = Inr renderedBuffer
              \<and> (hostBufferToWav env renderedBuffer = Inl e
                  \<or> (\<exists>wavBlob. hostBufferToWav env renderedBuffer = Inr wavBlob
                        \<and> hostBufferToMp3 env renderedBuffer = Inl e)))"
  shows "fst (handleDownload env fmt s) = Inr ()
     \<and> audioBuffer (snd (handleDownload env fmt s)) = audioBuffer s
     \<and> history (snd (handleDownload env fmt s)) = history s
     \<and> downloads (snd (handleDownload env fmt s)) = downloads s
     \<and> snd (handleDownload env fmt s) =
          s\<lparr>renderingFormat := None,
            alerts := alerts s @ [''Failed to process audio for '' @ formatName fmt @ '' download.'']\<rparr>"
proof -
  have "renderAndEncode env ab s = Inl e"
    using assms(2) by (auto simp: renderAndEncode_def)
  from handleDownload_fail [OF assms(1) this, of fmt] show ?thesis by simp
qed

lemma bufferToMp3_total:
  assumes "wfBuffer b"
  shows "\<exists>bytes. bufferToMp3 enc b = Inr bytes"
  by (simp add: bufferToMp3_def mp3Data_def mp3Samples_wf [OF assms] Let_def)

lemma itemId_renderAndEncode:
  "renderAndEncode env ab s = Inr item \<Longrightarrow> itemId item = dateNow env"
  by (auto simp: renderAndEncode_def bindE_def split: sum.splits)

lemma renderAndEncode_sampleHost:
  assumes "wfBuffer ab"
  shows "\<exists>item. renderAndEncode (sampleHost t) ab s = Inr item \<and> itemId item = t
            \<and> itemAudioBuffer item = ab \<and> itemFileName item = baseName (fileName s)"
proof -
  obtain mp3 where "bufferToMp3 lowByteEncoder ab = Inr mp3"
    using bufferToMp3_total [OF assms] by blast
  then show ?thesis
    by (simp add: renderAndEncode_def sampleHost_def hostBufferToWav_def hostBufferToMp3_def
          bufferToWav_layout)
qed

lemma download_sampleHost:
  assumes "audioBuffer s = Some ab" "wfBuffer ab"
  shows "map itemId (history (snd (handleDownload (sampleHost t) fmt s)))
         = take 10 (t # map itemId (history s))"
proof -
  obtain item where "renderAndEncode (sampleHost t) ab s = Inr item" "itemId item = t"
    using renderAndEncode_sampleHost [OF assms(2)] by blast
  then show ?thesis
    using handleDownload_ok(2) [OF assms(1), of "sampleHost t" item fmt]
    by (simp add: take_map)
qed

lemma wf_sampleBuffer: "wfBuffer sampleBuffer"
  by (simp add: sampleBuffer_def wfBuffer_def bufferLength_def)

lemma loaded_state:
  "audioBuffer (loadFile env r name (Inr b) s) = Some b"
  "history (loadFile env r name (Inr b) s) = history s"
  by (simp_all add: loadFile_def Let_def setupAudioContext_def split: option.splits)

lemma created_downloads:
  assumes "audioBuffer s = Some ab" "wfBuffer ab"
  shows "map itemId (createdItems (map (\<lambda>t. Download (sampleHost t) fmt) ts) s) = ts"
  using assms(1)
proof (induction ts arbitrary: s)
  case Nil
  then show ?case by simp
next
  case (Cons t ts)
  obtain item where item: "renderAndEncode (sampleHost t) ab s = Inr item" "itemId item = t"
    using renderAndEncode_sampleHost [OF assms(2)] by blast
  have ab': "audioBuffer (appStep (Download (sampleHost t) fmt) s) = Some ab"
    using Cons.prems by (simp add: handleDownload_frame)
  show ?case using Cons.prems item Cons.IH [OF ab'] by simp
qed

text \<open>One export into the empty store, and eleven exports in a row: the eleventh evicts
  the first.\<close>

theorem history_store_witness:
  "(\<exists>item. audioBuffer (loadFile (sampleHost 0) (currentRender initialState) ''a.wav'' (Inr sampleBuffer) initialState)
             = Some sampleBuffer
        \<and> renderAndEncode (sampleHost 1000) sampleBuffer
             (loadFile (sampleHost 0) (currentRender initialState) ''a.wav'' (Inr sampleBuffer) initialState) = Inr item
        \<and> itemId item = 1000
        \<and> history (snd (handleDownload (sampleHost 1000) Wav
             (loadFile (sampleHost 0) (currentRender initialState) ''a.wav'' (Inr sampleBuffer) initialState))) = [item])
   \<and> map itemId (history (run (LoadFile (sampleHost 0) ''a.wav'' (Inr sampleBuffer)
        # map (\<lambda>t. Download (sampleHost t) Wav) [1, 2, 3, 4, 5, 6, 7, 8, 9, 10, 11])
      initialState)) = [11, 10, 9, 8, 7, 6, 5, 4, 3, 2]"
proof -
  let ?s = "loadFile (sampleHost 0) (currentRender initialState) ''a.wav'' (Inr sampleBuffer) initialState"
  let ?ds = "map (\<lambda>t. Download (sampleHost t) Wav) [1, 2, 3, 4, 5, 6, 7, 8, 9, 10, 11]"
  let ?evs = "LoadFile (sampleHost 0) ''a.wav'' (Inr sampleBuffer) # ?ds"
  have ab: "audioBuffer ?s = Some sampleBuffer" by (rule loaded_state)
  have h: "history ?s = []" by (simp add: loaded_state initialState_def)
  obtain item where item: "renderAndEncode (sampleHost 1000) sampleBuffer ?s = Inr item"
    "itemId item = 1000"
    using renderAndEncode_sampleHost [OF wf_sampleBuffer] by blast
  have "history (snd (handleDownload (sampleHost 1000) Wav ?s)) = item # take 9 (history ?s)"
    using history_store ab item(1) by blast
  then have one: "history (snd (handleDownload (sampleHost 1000) Wav ?s)) = [item]"
    using h by simp
  have "history (run ?evs initialState) = take 10 (rev (createdItems ?evs initialState))"
    using history_store by blast
  then have "map itemId (history (run ?evs initialState))
             = take 10 (rev (map itemId (createdItems ?ds ?s)))"
    by (simp add: take_map rev_map)
  also have "\<dots> = take 10 (rev [1, 2, 3, 4, 5, 6, 7, 8, 9, 10, 11])"
    by (simp only: created_downloads [OF ab wf_sampleBuffer])
  finally have many: "map itemId (history (run ?evs initialState))
                      = [11, 10, 9, 8, 7, 6, 5, 4, 3, 2]"
    by simp
  show ?thesis using ab item one many by blast
qed

theorem export_failure_leaves_state_witness:
  "audioBuffer (loadFile (sampleHost 0) (currentRender initialState) ''a.wav'' (Inr sampleBuffer) initialState)
     = Some sampleBuffer
   \<and> fst (handleDownload ((sampleHost 1000)\<lparr>mp3Fault := (\<lambda>b. Some EncoderError)\<rparr>) Mp3
        (loadFile (sampleHost 0) (currentRender initialState) ''a.wav'' (Inr sampleBuffer) initialState)) = Inr ()
   \<and> history (snd (handleDownload ((sampleHost 1000)\<lparr>mp3Fault := (\<lambda>b. Some EncoderError)\<rparr>) Mp3
        (loadFile (sampleHost 0) (currentRender initialState) ''a.wav'' (Inr sampleBuffer) initialState))) = []
   \<and> audioBuffer (snd (handleDownload ((sampleHost 1000)\<lparr>mp3Fault := (\<lambda>b. Some EncoderError)\<rparr>) Mp3
        (loadFile (sampleHost 0) (currentRender initialState) ''a.wav'' (Inr sampleBuffer) initialState))) = Some sampleBuffer
   \<and> alerts (snd (handleDownload ((sampleHost 1000)\<lparr>mp3Fault := (\<lambda>b. Some EncoderError)\<rparr>) Mp3
        (loadFile (sampleHost 0) (currentRender initialState) ''a.wav'' (Inr sampleBuffer) initialState)))
      = [''Failed to process audio for mp3 download.'']"
proof -
  let ?s = "loadFile (sampleHost 0) (currentRender initialState) ''a.wav'' (Inr sampleBuffer) initialState"
  let ?env = "(sampleHost 1000)\<lparr>mp3Fault := (\<lambda>b. Some EncoderError)\<rparr>"
  have ab: "audioBuffer ?s = Some sampleBuffer" by (rule loaded_state)
  have h: "history ?s = []" by (simp add: loaded_state initialState_def)
  have al: "alerts ?s = []"
    by (simp add: loadFile_def Let_def setupAudioContext_def initialState_def)
  have fail: "startRendering ?env (offlineGraph ?env ?s) sampleBuffer = Inl EncoderError
     \<or> (\<exists>renderedBuffer. startRendering ?env (offlineGraph ?env ?s) sampleBuffer = Inr renderedBuffer
          \<and> (hostBufferToWav ?env renderedBuffer = Inl EncoderError
              \<or> (\<exists>wavBlob. hostBufferToWav ?env renderedBuffer = Inr wavBlob
                    \<and> hostBufferToMp3 ?env renderedBuffer = Inl EncoderError)))"
    by (simp add: sampleHost_def hostBufferToWav_def hostBufferToMp3_def bufferToWav_layout)
  from export_failure_leaves_state [OF ab fail, of Mp3]
  show ?thesis using ab h al by (simp add: formatName_def)
qed

lemma newItems_ids:
  "set (map itemId (newItems ev s)) \<subseteq> set (clockReadings [ev])"
  by (cases ev) (auto split: option.splits sum.splits dest: itemId_renderAndEncode [OF sym])

lemma clockReadings_Cons: "clockReadings (ev # evs) = clockReadings [ev] @ clockReadings evs"
  by (cases ev) simp_all

lemma length_newItems: "length (newItems ev s) \<le> 1"
  using newItems_cases [of ev s] by auto

lemma created_ids_subset:
  "set (map itemId (createdItems evs s)) \<subseteq> set (clockReadings evs)"
proof (induction evs arbitrary: s)
  case Nil
  then show ?case by simp
next
  case (Cons ev evs)
  have "set (map itemId (createdItems (ev # evs) s))
        = set (map itemId (newItems ev s)) \<union> set (map itemId (createdItems evs (appStep ev s)))"
    by simp
  also have "\<dots> \<subseteq> set (clockReadings [ev]) \<union> set (clockReadings evs)"
    using newItems_ids [of ev s] Cons.IH [of "appStep ev s"] by blast
  also have "\<dots> = set (clockReadings (ev # evs))"
    by (subst (2) clockReadings_Cons) simp
  finally show ?case .
qed

lemma created_ids_sorted:
  "sorted_wrt (<) (clockReadings evs) \<Longrightarrow> sorted_wrt (<) (map itemId (createdItems evs s))"
proof (induction evs arbitrary: s)
  case Nil
  then show ?case by simp
next
  case (Cons ev evs)
  have split: "sorted_wrt (<) (clockReadings [ev] @ clockReadings evs)"
    using Cons.prems by (subst clockReadings_Cons [symmetric])
  then have rest: "sorted_wrt (<) (clockReadings evs)"
    and cross: "\<forall>x \<in> set (clockReadings [ev]). \<forall>y \<in> set (clockReadings evs). x < y"
    by (simp_all add: sorted_wrt_append)
  have s1: "sorted_wrt (<) (map itemId (newItems ev s))"
    using newItems_cases [of ev s] by auto
  have s2: "sorted_wrt (<) (map itemId (createdItems evs (appStep ev s)))"
    by (rule Cons.IH [OF rest])
  have s3: "\<forall>x \<in> set (map itemId (newItems ev s)).
            \<forall>y \<in> set (map itemId (createdItems evs (appStep ev s))). x < y"
    using cross newItems_ids [of ev s] created_ids_subset [of evs "appStep ev s"] by blast
  show ?case using s1 s2 s3 by (simp add: sorted_wrt_append)
qed

lemma strict_sorted_distinct: "sorted_wrt (<) (xs :: int list) \<Longrightarrow> distinct xs"
  by (induction xs) auto

text \<open>
  C9, as amended. The id of a Render Result is the reading of \<^verbatim>\<open>Date.now()\<close> at its
  export. When the readings given to the exports of a session strictly increase, the ids
  of the created items strictly increase in creation order, so they are pairwise distinct,
  and the ids in the History Store strictly decrease from the front.
\<close>

theorem render_result_ids:
  assumes "sorted_wrt (<) (clockReadings evs)"
  shows "sorted_wrt (<) (map itemId (createdItems evs initialState))
     \<and> distinct (map itemId (createdItems evs initialState))
     \<and> sorted_wrt (>) (map itemId (history (run evs initialState)))
     \<and> distinct (map itemId (history (run evs initialState)))
     \<and> set (map itemId (createdItems evs initialState)) \<subseteq> set (clockReadings evs)"
proof -
  let ?ids = "map itemId (createdItems evs initialState)"
  have s: "sorted_wrt (<) ?ids" by (rule created_ids_sorted [OF assms])
  have d: "distinct ?ids" by (rule strict_sorted_distinct [OF s])
  have h0: "length (history initialState) \<le> 10" and e0: "history initialState = []"
    by (simp_all add: initialState_def)
  have h: "map itemId (history (run evs initialState)) = take 10 (rev ?ids)"
    using history_run_created [OF h0, of evs] e0 by (simp add: take_map rev_map)
  have r: "sorted_wrt (>) (rev ?ids)" using s by (simp add: sorted_wrt_rev)
  have hs: "sorted_wrt (>) (map itemId (history (run evs initialState)))"
    unfolding h using r by (rule sorted_wrt_take)
  have hd: "distinct (map itemId (history (run evs initialState)))"
    unfolding h using d by (simp add: distinct_take)
  show ?thesis using s d hs hd created_ids_subset by blast
qed

lemma sampleHost_clock [simp]: "dateNow (sampleHost t) = t"
  by (simp add: sampleHost_def)

lemma two_exports:
  "map itemId (history (run [LoadFile (sampleHost 0) ''a.wav'' (Inr sampleBuffer),
        Download (sampleHost t1) Wav, Download (sampleHost t2) Mp3] initialState)) = [t2, t1]"
proof -
  let ?s1 = "loadFile (sampleHost 0) (currentRender initialState) ''a.wav'' (Inr sampleBuffer) initialState"
  let ?s2 = "snd (handleDownload (sampleHost t1) Wav ?s1)"
  have ab1: "audioBuffer ?s1 = Some sampleBuffer" by (rule loaded_state)
  have h1: "history ?s1 = []" by (simp add: loaded_state initialState_def)
  have ids2: "map itemId (history ?s2) = [t1]"
    using download_sampleHost [OF ab1 wf_sampleBuffer, of t1 Wav] h1 by simp
  have ab2: "audioBuffer ?s2 = Some sampleBuffer" using ab1 by (simp add: handleDownload_frame)
  have "map itemId (history (snd (handleDownload (sampleHost t2) Mp3 ?s2))) = [t2, t1]"
    using download_sampleHost [OF ab2 wf_sampleBuffer, of t2 Mp3] ids2 by simp
  then show ?thesis by simp
qed

theorem render_result_ids_witness:
  "sorted_wrt (<) (clockReadings [LoadFile (sampleHost 0) ''a.wav'' (Inr sampleBuffer),
        Download (sampleHost 1000) Wav, Download (sampleHost 1001) Mp3])
   \<and> map itemId (history (run [LoadFile (sampleHost 0) ''a.wav'' (Inr sampleBuffer),
        Download (sampleHost 1000) Wav, Download (sampleHost 1001) Mp3] initialState))
      = [1001, 1000]
   \<and> distinct (map itemId (history (run [LoadFile (sampleHost 0) ''a.wav'' (Inr sampleBuffer),
        Download (sampleHost 1000) Wav, Download (sampleHost 1001) Mp3] initialState)))"
proof -
  let ?evs = "[LoadFile (sampleHost 0) ''a.wav'' (Inr sampleBuffer),
        Download (sampleHost 1000) Wav, Download (sampleHost 1001) Mp3]"
  have c: "sorted_wrt (<) (clockReadings ?evs)" by simp
  from render_result_ids [OF c] have "distinct (map itemId (history (run ?evs initialState)))"
    by blast
  then show ?thesis using c two_exports [of 1000 1001] by blast
qed

text \<open>
  C9 as stated fails when two exports read the same millisecond, or the clock is set back
  between them: the ids are then equal, or decrease with creation order.
\<close>

theorem render_result_ids_counterexample:
  "map itemId (history (run [LoadFile (sampleHost 0) ''a.wav'' (Inr sampleBuffer),
        Download (sampleHost 1000) Wav, Download (sampleHost 1000) Mp3] initialState))
     = [1000, 1000]
   \<and> \<not> distinct (map itemId (history (run [LoadFile (sampleHost 0) ''a.wav'' (Inr sampleBuffer),
        Download (sampleHost 1000) Wav, Download (sampleHost 1000) Mp3] initialState)))
   \<and> map itemId (history (run [LoadFile (sampleHost 0) ''a.wav'' (Inr sampleBuffer),
        Download (sampleHost 1000) Wav, Download (sampleHost 999) Mp3] initialState))
     = [999, 1000]"
  using two_exports [of 1000 1000] two_exports [of 1000 999] by simp

section \<open>Properties of the effect parameters\<close>

lemma admits_delay: "rangeInputAdmits delaySlider v \<Longrightarrow> 0.01 \<le> v \<and> v \<le> 1"
  by (simp add: rangeInputAdmits_def delaySlider_def)

lemma admits_feedback: "rangeInputAdmits feedbackSlider v \<Longrightarrow> 0 \<le> v \<and> v \<le> 0.95"
  by (simp add: rangeInputAdmits_def feedbackSlider_def)

lemma echoInv_initial: "echoInv initialState"
  by (simp add: echoInv_def inSliderRanges_def initialState_def)

lemma echoInv_currentRender:
  "echoInv s \<Longrightarrow>
   inSliderRanges (renderDelayTime (currentRender s)) (renderFeedback (currentRender s))"
  by (simp add: echoInv_def currentRender_def)

lemma echoInv_frame:
  assumes "echoInv s" "delayTime s' = delayTime s" "feedback s' = feedback s"
    and "map_option delayNodeDelayTime (liveNodes s') = map_option delayNodeDelayTime (liveNodes s)"
    and "map_option feedbackGainNodeGain (liveNodes s') = map_option feedbackGainNodeGain (liveNodes s)"
    and "mediaRecorderRef s' = mediaRecorderRef s" "pendingStop s' = pendingStop s"
  shows "echoInv s'"
proof (cases "liveNodes s'")
  case None
  then show ?thesis using assms(1-3,6,7) by (simp add: echoInv_def)
next
  case (Some g')
  then obtain g where g: "liveNodes s = Some g"
    "delayNodeDelayTime g' = delayNodeDelayTime g" "feedbackGainNodeGain g' = feedbackGainNodeGain g"
    using assms(4,5) by (cases "liveNodes s") auto
  then show ?thesis using assms(1-3,6,7) Some by (simp add: echoInv_def)
qed

lemma echoInv_setup:
  assumes "echoInv s" "inSliderRanges (renderDelayTime r) (renderFeedback r)"
  shows "echoInv (setupAudioContext env r s)"
  using assms by (cases "liveNodes s") (simp_all add: echoInv_def setupAudioContext_def)

lemma echoInv_loadFile:
  assumes "echoInv s" "inSliderRanges (renderDelayTime r) (renderFeedback r)"
  shows "echoInv (loadFile env r name decoded s)"
proof -
  have "echoInv (setupAudioContext env r s)" using assms by (rule echoInv_setup)
  then show ?thesis
    by (rule echoInv_frame) (cases decoded; simp add: loadFile_def Let_def)+
qed

lemma echoInv_startRecording: "echoInv s \<Longrightarrow> echoInv (startRecording refused s)"
  by (cases refused) (simp_all add: echoInv_def startRecording_def currentRender_def)

lemma echoInv_stopRecording: "echoInv s \<Longrightarrow> echoInv (stopRecording s)"
  by (cases "mediaRecorderRef s") (simp_all add: echoInv_def stopRecording_def)

lemma echoInv_recorderOnstop:
  assumes "echoInv s"
  shows "echoInv (recorderOnstop env isoDate decoded s)"
proof (cases "pendingStop s")
  case Nil
  then show ?thesis using assms by (simp add: recorderOnstop_def)
next
  case (Cons r rest)
  have r: "inSliderRanges (renderDelayTime r) (renderFeedback r)"
    using assms Cons by (simp add: echoInv_def)
  have "echoInv (s\<lparr>pendingStop := rest\<rparr>)"
    using assms Cons by (simp add: echoInv_def)
  then have "echoInv (loadFile env r (''recording-'' @ isoDate @ ''.wav'') decoded
                        (s\<lparr>pendingStop := rest\<rparr>))"
    using r by (rule echoInv_loadFile)
  then show ?thesis using Cons by (simp add: recorderOnstop_def)
qed

lemma echoInv_setDelayTime:
  assumes "echoInv s" "0.01 \<le> v" "v \<le> 1"
  shows "echoInv (setDelayTime v s)"
proof (cases "liveNodes s")
  case None
  then show ?thesis using assms
    by (simp add: echoInv_def inSliderRanges_def setDelayTime_def delayTimeEffect_def)
next
  case (Some g)
  then show ?thesis using assms
    by (simp add: echoInv_def inSliderRanges_def setDelayTime_def delayTimeEffect_def)
qed

lemma echoInv_setFeedback:
  assumes "echoInv s" "0 \<le> v" "v \<le> 0.95"
  shows "echoInv (setFeedback v s)"
proof (cases "liveNodes s")
  case None
  then show ?thesis using assms
    by (simp add: echoInv_def inSliderRanges_def setFeedback_def feedbackEffect_def)
next
  case (Some g)
  then show ?thesis using assms
    by (simp add: echoInv_def inSliderRanges_def setFeedback_def feedbackEffect_def)
qed

lemma echoInv_other_setters:
  assumes "echoInv s"
  shows "echoInv (setIsClarityOn b s)" and "echoInv (setVoiceBoost v s)"
    and "echoInv (setClarity v s)"
proof -
  show "echoInv (setIsClarityOn b s)"
    using assms
    by (rule echoInv_frame)
       (cases "liveNodes s"; simp add: setIsClarityOn_def isClarityOnEffect_def)+
  show "echoInv (setVoiceBoost v s)"
    using assms
    by (rule echoInv_frame)
       (cases "liveNodes s"; simp add: setVoiceBoost_def voiceBoostEffect_def)+
  show "echoInv (setClarity v s)"
    using assms
    by (rule echoInv_frame)
       (cases "liveNodes s"; simp add: setClarity_def clarityEffect_def)+
qed

lemma handleDownload_recorder:
  "mediaRecorderRef (snd (handleDownload env fmt s)) = mediaRecorderRef s"
  "pendingStop (snd (handleDownload env fmt s)) = pendingStop s"
  "isRecording (snd (handleDownload env fmt s)) = isRecording s"
  by (simp_all add: handleDownload_def tryCatchFinally_def tryBlock_def Let_def
        split: option.splits sum.splits)

lemma echoInv_step:
  assumes "echoInv s" "admissible ev"
  shows "echoInv (appStep ev s)"
proof (cases ev)
  case (LoadFile env name decoded)
  then show ?thesis
    using assms(1) by (simp add: echoInv_loadFile echoInv_currentRender)
next
  case (StartRecording refused)
  then show ?thesis using assms(1) by (simp add: echoInv_startRecording)
next
  case StopRecording
  then show ?thesis using assms(1) by (simp add: echoInv_stopRecording)
next
  case (RecorderStop env isoDate decoded)
  then show ?thesis using assms(1) by (simp add: echoInv_recorderOnstop)
next
  case (Download env fmt)
  have "echoInv (snd (handleDownload env fmt s))"
    using assms(1) by (rule echoInv_frame) (simp_all add: handleDownload_frame handleDownload_recorder)
  then show ?thesis using Download by simp
next
  case (HistoryLoad item)
  have "echoInv (handleHistoryLoad item s)"
    using assms(1) by (rule echoInv_frame) (simp_all add: handleHistoryLoad_def)
  then show ?thesis using HistoryLoad by simp
next
  case (DelayChange v)
  then show ?thesis using assms admits_delay [of v] by (simp add: echoInv_setDelayTime)
next
  case (FeedbackChange v)
  then show ?thesis using assms admits_feedback [of v] by (simp add: echoInv_setFeedback)
next
  case (NoiseReductionToggle b)
  then show ?thesis using assms(1) by (simp add: echoInv_other_setters)
next
  case (VoiceBoostChange v)
  then show ?thesis using assms(1) by (simp add: echoInv_other_setters)
next
  case (ClarityChange v)
  then show ?thesis using assms(1) by (simp add: echoInv_other_setters)
qed

lemma echoInv_run: "echoInv s \<Longrightarrow> list_all admissible evs \<Longrightarrow> echoInv (run evs s)"
  by (induction evs arbitrary: s) (simp_all add: echoInv_step)

text \<open>Without the recorder's handler, every function that creates or writes the live
  nodes is one of the current render.\<close>

lemma liveInv_frame:
  assumes "liveInv s" "delayTime s' = delayTime s" "feedback s' = feedback s"
    and "map_option delayNodeDelayTime (liveNodes s') = map_option delayNodeDelayTime (liveNodes s)"
    and "map_option feedbackGainNodeGain (liveNodes s') = map_option feedbackGainNodeGain (liveNodes s)"
  shows "liveInv s'"
proof (cases "liveNodes s'")
  case None
  then show ?thesis by (simp add: liveInv_def)
next
  case (Some g')
  then obtain g where g: "liveNodes s = Some g"
    "delayNodeDelayTime g' = delayNodeDelayTime g" "feedbackGainNodeGain g' = feedbackGainNodeGain g"
    using assms(4,5) by (cases "liveNodes s") auto
  then show ?thesis using assms(1-3) Some by (simp add: liveInv_def)
qed

lemma liveInv_loadFile: "liveInv s \<Longrightarrow> liveInv (loadFile env (currentRender s) name decoded s)"
proof -
  assume "liveInv s"
  then have "liveInv (setupAudioContext env (currentRender s) s)"
    by (cases "liveNodes s") (simp_all add: liveInv_def setupAudioContext_def currentRender_def)
  then show ?thesis
    by (rule liveInv_frame) (cases decoded; simp add: loadFile_def Let_def)+
qed

lemma liveInv_setters:
  assumes "liveInv s"
  shows "liveInv (setDelayTime v s)" and "liveInv (setFeedback v s)"
    and "liveInv (setIsClarityOn b s)" and "liveInv (setVoiceBoost v s)"
    and "liveInv (setClarity v s)"
  using assms
  by (cases "liveNodes s";
      simp add: liveInv_def setDelayTime_def setFeedback_def setIsClarityOn_def setVoiceBoost_def
        setClarity_def delayTimeEffect_def feedbackEffect_def isClarityOnEffect_def
        voiceBoostEffect_def clarityEffect_def)+

lemma liveInv_step:
  assumes "liveInv s" "\<not> loadsRecording ev"
  shows "liveInv (appStep ev s)"
proof (cases ev)
  case (LoadFile env name decoded)
  then show ?thesis using assms(1) by (simp add: liveInv_loadFile)
next
  case (StartRecording refused)
  have "liveInv (startRecording refused s)"
    using assms(1)
    by (rule liveInv_frame) (cases refused; simp add: startRecording_def)+
  then show ?thesis using StartRecording by simp
next
  case StopRecording
  have "liveInv (stopRecording s)"
    using assms(1)
    by (rule liveInv_frame) (cases "mediaRecorderRef s"; simp add: stopRecording_def)+
  then show ?thesis using StopRecording by simp
next
  case (RecorderStop env isoDate decoded)
  then show ?thesis using assms(2) by simp
next
  case (Download env fmt)
  have "liveInv (snd (handleDownload env fmt s))"
    using assms(1) by (rule liveInv_frame) (simp_all add: handleDownload_frame)
  then show ?thesis using Download by simp
next
  case (HistoryLoad item)
  have "liveInv (handleHistoryLoad item s)"
    using assms(1) by (rule liveInv_frame) (simp_all add: handleHistoryLoad_def)
  then show ?thesis using HistoryLoad by simp
next
  case (DelayChange v)
  then show ?thesis using assms(1) by (simp add: liveInv_setters)
next
  case (FeedbackChange v)
  then show ?thesis using assms(1) by (simp add: liveInv_setters)
next
  case (NoiseReductionToggle b)
  then show ?thesis using assms(1) by (simp add: liveInv_setters)
next
  case (VoiceBoostChange v)
  then show ?thesis using assms(1) by (simp add: liveInv_setters)
next
  case (ClarityChange v)
  then show ?thesis using assms(1) by (simp add: liveInv_setters)
qed

lemma liveInv_run:
  "liveInv s \<Longrightarrow> list_all (\<lambda>ev. \<not> loadsRecording ev) evs \<Longrightarrow> liveInv (run evs s)"
  by (induction evs arbitrary: s) (simp_all add: liveInv_step)

lemma setters_verbatim:
  "delayTime (setDelayTime v s) = v" "feedback (setFeedback v s) = v"
  by (simp_all add: setDelayTime_def setFeedback_def delayTimeEffect_def feedbackEffect_def
        split: option.splits)

lemma setters_reach_live_nodes:
  assumes "liveNodes s = Some g"
  shows "v \<noteq> delayTime s \<Longrightarrow>
           map_option delayNodeDelayTime (liveNodes (setDelayTime v s)) = Some v"
    and "v \<noteq> feedback s \<Longrightarrow>
           map_option feedbackGainNodeGain (liveNodes (setFeedback v s)) = Some v"
  using assms
  by (simp_all add: setDelayTime_def setFeedback_def delayTimeEffect_def feedbackEffect_def)

text \<open>
  C3, as amended. The code neither clamps nor rejects an effect parameter: a setter stores
  the value it is given, a changed value is written as it is to the live node when the
  live graph exists, and the delay and feedback-gain nodes of the offline graph hold the
  values of the state. The bounds are those of the two sliders, and they are inclusive:
  through any list of events whose slider values the sliders admit, the delay time of
  the state and of the live delay node lies in \<open>[0.01, 1.0]\<close> and the feedback of the
  state and of the live feedback-gain node in \<open>[0, 0.95]\<close>. In a session that loads no
  recording the live nodes hold the values of the state.
\<close>

theorem echo_parameters_applied:
  assumes "list_all admissible evs"
  shows "(let s = run evs initialState in
        0.01 \<le> delayTime s \<and> delayTime s \<le> 1 \<and> 0 \<le> feedback s \<and> feedback s \<le> 0.95
      \<and> delayNodeDelayTime (offlineGraph env s) = delayTime s
      \<and> feedbackGainNodeGain (offlineGraph env s) = feedback s
      \<and> (case liveNodes s of
            None \<Rightarrow> True
          | Some g \<Rightarrow>
              0.01 \<le> delayNodeDelayTime g \<and> delayNodeDelayTime g \<le> 1
            \<and> 0 \<le> feedbackGainNodeGain g \<and> feedbackGainNodeGain g \<le> 0.95
            \<and> (list_all (\<lambda>ev. \<not> loadsRecording ev) evs \<longrightarrow>
                 delayNodeDelayTime g = delayTime s \<and> feedbackGainNodeGain g = feedback s)))
     \<and> (\<forall>v s. delayTime (setDelayTime v s) = v \<and> feedback (setFeedback v s) = v)
     \<and> (\<forall>v s g. liveNodes s = Some g \<and> v \<noteq> delayTime s \<longrightarrow>
           map_option delayNodeDelayTime (liveNodes (setDelayTime v s)) = Some v)
     \<and> (\<forall>v s g. liveNodes s = Some g \<and> v \<noteq> feedback s \<longrightarrow>
           map_option feedbackGainNodeGain (liveNodes (setFeedback v s)) = Some v)"
proof -
  let ?s = "run evs initialState"
  have inv: "echoInv ?s"
    by (rule echoInv_run [OF echoInv_initial assms])
  have live0: "liveInv initialState" by (simp add: liveInv_def initialState_def)
  have live: "list_all (\<lambda>ev. \<not> loadsRecording ev) evs \<Longrightarrow> liveInv ?s"
    by (rule liveInv_run [OF live0])
  have state: "0.01 \<le> delayTime ?s \<and> delayTime ?s \<le> 1 \<and> 0 \<le> feedback ?s \<and> feedback ?s \<le> 0.95"
    using inv by (simp add: echoInv_def inSliderRanges_def)
  have offline: "delayNodeDelayTime (offlineGraph env ?s) = delayTime ?s
      \<and> feedbackGainNodeGain (offlineGraph env ?s) = feedback ?s"
    by (simp add: offlineGraph_def)
  have nodes: "(case liveNodes ?s of
            None \<Rightarrow> True
          | Some g \<Rightarrow>
              0.01 \<le> delayNodeDelayTime g \<and> delayNodeDelayTime g \<le> 1
            \<and> 0 \<le> feedbackGainNodeGain g \<and> feedbackGainNodeGain g \<le> 0.95
            \<and> (list_all (\<lambda>ev. \<not> loadsRecording ev) evs \<longrightarrow>
                 delayNodeDelayTime g = delayTime ?s \<and> feedbackGainNodeGain g = feedback ?s))"
  proof (cases "liveNodes ?s")
    case None
    then show ?thesis by simp
  next
    case (Some g)
    have "inSliderRanges (delayNodeDelayTime g) (feedbackGainNodeGain g)"
      using inv Some by (simp add: echoInv_def)
    moreover have "list_all (\<lambda>ev. \<not> loadsRecording ev) evs \<longrightarrow>
        delayNodeDelayTime g = delayTime ?s \<and> feedbackGainNodeGain g = feedback ?s"
      using live Some by (auto simp: liveInv_def)
    ultimately show ?thesis using Some by (simp add: inSliderRanges_def)
  qed
  have setters: "\<forall>v s. delayTime (setDelayTime v s) = v \<and> feedback (setFeedback v s) = v"
    by (simp add: setters_verbatim)
  have d: "\<forall>v s g. liveNodes s = Some g \<and> v \<noteq> delayTime s \<longrightarrow>
           map_option delayNodeDelayTime (liveNodes (setDelayTime v s)) = Some v"
    using setters_reach_live_nodes(1) by blast
  have f: "\<forall>v s g. liveNodes s = Some g \<and> v \<noteq> feedback s \<longrightarrow>
           map_option feedbackGainNodeGain (liveNodes (setFeedback v s)) = Some v"
    using setters_reach_live_nodes(2) by blast
  show ?thesis
    unfolding Let_def using state offline nodes setters d f by blast
qed

lemma sample_run:
  "delayTime (run [LoadFile (sampleHost 0) ''a.wav'' (Inr sampleBuffer),
        DelayChange 0.37, FeedbackChange 0.95] initialState) = 0.37"
  "feedback (run [LoadFile (sampleHost 0) ''a.wav'' (Inr sampleBuffer),
        DelayChange 0.37, FeedbackChange 0.95] initialState) = 0.95"
  "liveNodes (run [LoadFile (sampleHost 0) ''a.wav'' (Inr sampleBuffer),
        DelayChange 0.37, FeedbackChange 0.95] initialState) \<noteq> None"
  by (simp_all add: loadFile_def setupAudioContext_def currentRender_def initialState_def Let_def
        setDelayTime_def setFeedback_def delayTimeEffect_def feedbackEffect_def)

lemma sample_admissible:
  "list_all admissible [LoadFile (sampleHost 0) ''a.wav'' (Inr sampleBuffer),
        DelayChange 0.37, FeedbackChange 0.95]"
  by (simp add: rangeInputAdmits_def delaySlider_def feedbackSlider_def)

text \<open>
  A recording started on a fresh page, the sliders moved while it runs, and the recording
  stopped and loaded: the handler that creates the live nodes is the one of the render in
  which the recording started, so the nodes hold 0.5 and 0.5, the state 0.2 and 0.9.
\<close>

lemma recording_run:
  "delayTime (run [StartRecording None, DelayChange 0.2, FeedbackChange 0.9, StopRecording,
        RecorderStop (sampleHost 0) ''t'' (Inr sampleBuffer)] initialState) = 0.2"
  "feedback (run [StartRecording None, DelayChange 0.2, FeedbackChange 0.9, StopRecording,
        RecorderStop (sampleHost 0) ''t'' (Inr sampleBuffer)] initialState) = 0.9"
  "map_option delayNodeDelayTime (liveNodes
      (run [StartRecording None, DelayChange 0.2, FeedbackChange 0.9, StopRecording,
        RecorderStop (sampleHost 0) ''t'' (Inr sampleBuffer)] initialState)) = Some 0.5"
  "map_option feedbackGainNodeGain (liveNodes
      (run [StartRecording None, DelayChange 0.2, FeedbackChange 0.9, StopRecording,
        RecorderStop (sampleHost 0) ''t'' (Inr sampleBuffer)] initialState)) = Some 0.5"
  "audioBuffer (run [StartRecording None, DelayChange 0.2, FeedbackChange 0.9, StopRecording,
        RecorderStop (sampleHost 0) ''t'' (Inr sampleBuffer)] initialState) = Some sampleBuffer"
  by (simp_all add: startRecording_def stopRecording_def recorderOnstop_def loadFile_def
        setupAudioContext_def currentRender_def initialState_def Let_def
        setDelayTime_def setFeedback_def delayTimeEffect_def feedbackEffect_def)

lemma recording_admissible:
  "list_all admissible [StartRecording None, DelayChange 0.2, FeedbackChange 0.9, StopRecording,
        RecorderStop (sampleHost 0) ''t'' (Inr sampleBuffer)]"
  by (simp add: rangeInputAdmits_def delaySlider_def feedbackSlider_def)

theorem echo_parameters_applied_witness:
  "list_all admissible [LoadFile (sampleHost 0) ''a.wav'' (Inr sampleBuffer),
        DelayChange 0.37, FeedbackChange 0.95]
   \<and> delayNodeDelayTime (offlineGraph (sampleHost 0)
        (run [LoadFile (sampleHost 0) ''a.wav'' (Inr sampleBuffer),
              DelayChange 0.37, FeedbackChange 0.95] initialState)) = 0.37
   \<and> map_option delayNodeDelayTime (liveNodes
        (run [LoadFile (sampleHost 0) ''a.wav'' (Inr sampleBuffer),
              DelayChange 0.37, FeedbackChange 0.95] initialState)) = Some 0.37
   \<and> list_all admissible [StartRecording None, DelayChange 0.2, FeedbackChange 0.9,
        StopRecording, RecorderStop (sampleHost 0) ''t'' (Inr sampleBuffer)]
   \<and> feedbackGainNodeGain (offlineGraph (sampleHost 0)
        (run [StartRecording None, DelayChange 0.2, FeedbackChange 0.9, StopRecording,
              RecorderStop (sampleHost 0) ''t'' (Inr sampleBuffer)] initialState)) = 0.9
   \<and> map_option feedbackGainNodeGain (liveNodes
        (run [StartRecording None, DelayChange 0.2, FeedbackChange 0.9, StopRecording,
              RecorderStop (sampleHost 0) ''t'' (Inr sampleBuffer)] initialState)) = Some 0.5"
proof -
  let ?evs = "[LoadFile (sampleHost 0) ''a.wav'' (Inr sampleBuffer),
        DelayChange 0.37, FeedbackChange 0.95]"
  let ?rec = "[StartRecording None, DelayChange 0.2, FeedbackChange 0.9, StopRecording,
        RecorderStop (sampleHost 0) ''t'' (Inr sampleBuffer)]"
  obtain g where g: "liveNodes (run ?evs initialState) = Some g"
    using sample_run(3) by blast
  have plain: "list_all (\<lambda>ev. \<not> loadsRecording ev) ?evs" by simp
  from echo_parameters_applied [OF sample_admissible, of "sampleHost 0"]
  have "delayNodeDelayTime (offlineGraph (sampleHost 0) (run ?evs initialState))
          = delayTime (run ?evs initialState)"
    and "delayNodeDelayTime g = delayTime (run ?evs initialState)"
    unfolding Let_def g using plain by simp_all
  then have first: "delayNodeDelayTime (offlineGraph (sampleHost 0) (run ?evs initialState)) = 0.37
      \<and> map_option delayNodeDelayTime (liveNodes (run ?evs initialState)) = Some 0.37"
    using g sample_run(1) by simp
  from echo_parameters_applied [OF recording_admissible, of "sampleHost 0"]
  have "feedbackGainNodeGain (offlineGraph (sampleHost 0) (run ?rec initialState))
          = feedback (run ?rec initialState)"
    unfolding Let_def by blast
  then have second: "feedbackGainNodeGain (offlineGraph (sampleHost 0) (run ?rec initialState)) = 0.9"
    using recording_run(2) by simp
  show ?thesis
    using sample_admissible first recording_admissible second recording_run(4) by blast
qed

text \<open>
  C3 as stated fails at feedback 0.95: the feedback slider admits it, and it reaches the
  feedback-gain node of the offline graph and of the live graph.
\<close>

theorem echo_parameters_counterexample:
  "list_all admissible [LoadFile (sampleHost 0) ''a.wav'' (Inr sampleBuffer), FeedbackChange 0.95]
   \<and> feedbackGainNodeGain (offlineGraph (sampleHost 0)
        (run [LoadFile (sampleHost 0) ''a.wav'' (Inr sampleBuffer), FeedbackChange 0.95]
           initialState)) = 0.95
   \<and> map_option feedbackGainNodeGain (liveNodes
        (run [LoadFile (sampleHost 0) ''a.wav'' (Inr sampleBuffer), FeedbackChange 0.95]
           initialState)) = Some 0.95"
  by (simp add: rangeInputAdmits_def feedbackSlider_def offlineGraph_def loadFile_def
        setupAudioContext_def currentRender_def initialState_def Let_def setFeedback_def
        feedbackEffect_def)

subsection \<open>The noise filter\<close>

text \<open>
  Switching noise reduction off, on and off again, from any state: the setting is off,
  the live noise filter is of type allpass with the frequency 5000 Hz and the Q 1 written
  while the setting was on, and nothing else has changed. The offline graph and the
  preview graph, built anew, then hold an allpass filter with the parameters of a fresh
  filter.
\<close>

lemma noise_reduction_toggle_general:
  "(let s' = run [NoiseReductionToggle False, NoiseReductionToggle True,
                  NoiseReductionToggle False] s
    in isClarityOn s' = False
     \<and> liveNodes s' =
         map_option (\<lambda>g. g\<lparr>noiseReductionFilter :=
              (noiseReductionFilter g)\<lparr>biquadType := Allpass, biquadFrequency := 5000,
                                        biquadQ := 1\<rparr>\<rparr>) (liveNodes s)
     \<and> noiseReductionFilter (offlineGraph env s')
         = (createBiquadFilter env)\<lparr>biquadType := Allpass\<rparr>
     \<and> previewNoiseReduction (previewGraph env s')
         = (createBiquadFilter env)\<lparr>biquadType := Allpass\<rparr>
     \<and> s' = s\<lparr>isClarityOn := False, liveNodes := liveNodes s'\<rparr>)"
  by (cases "liveNodes s"; cases "isClarityOn s")
     (simp_all add: setIsClarityOn_def isClarityOnEffect_def offlineGraph_def previewGraph_def
        Let_def)


section \<open>Properties of playback\<close>

lemmas pb_defs = toggleOriginalPlayback_def toggleProcessedPlayback_def togglePreviewPlayback_def
  handleHistoryPlay_def stopAllPlayback_def stopRef_def stopSource_def startSource_def
  readyPlayback_def Let_def

lemma stopSource_fields [simp]:
  "playing (stopSource n s) = playing s - {n}"
  "originalSourceRef (stopSource n s) = originalSourceRef s"
  "processedSourceRef (stopSource n s) = processedSourceRef s"
  "historySourceRef (stopSource n s) = historySourceRef s"
  "beforePreviewSourceRef (stopSource n s) = beforePreviewSourceRef s"
  "afterPreviewSourceRef (stopSource n s) = afterPreviewSourceRef s"
  "nextSource (stopSource n s) = nextSource s"
  "contextReady (stopSource n s) = contextReady s"
  "hasAudioBuffer (stopSource n s) = hasAudioBuffer s"
  "hasProcessedVisBuffer (stopSource n s) = hasProcessedVisBuffer s"
  by (auto simp: stopSource_def)

lemma stopRef_fields [simp]:
  "playing (stopRef r s) = playing s - set_option r"
  "originalSourceRef (stopRef r s) = originalSourceRef s"
  "processedSourceRef (stopRef r s) = processedSourceRef s"
  "historySourceRef (stopRef r s) = historySourceRef s"
  "beforePreviewSourceRef (stopRef r s) = beforePreviewSourceRef s"
  "afterPreviewSourceRef (stopRef r s) = afterPreviewSourceRef s"
  "nextSource (stopRef r s) = nextSource s"
  "contextReady (stopRef r s) = contextReady s"
  "hasAudioBuffer (stopRef r s) = hasAudioBuffer s"
  "hasProcessedVisBuffer (stopRef r s) = hasProcessedVisBuffer s"
  by (cases r; simp add: stopRef_def)+

lemma heldSources_stopRef [simp]: "heldSources (stopRef r s) = heldSources s"
  by (simp add: heldSources_def)

lemma stopAllPlayback_fields [simp]:
  "playing (stopAllPlayback s) = playing s - heldSources s"
  "originalSourceRef (stopAllPlayback s) = originalSourceRef s"
  "processedSourceRef (stopAllPlayback s) = processedSourceRef s"
  "historySourceRef (stopAllPlayback s) = historySourceRef s"
  "beforePreviewSourceRef (stopAllPlayback s) = beforePreviewSourceRef s"
  "afterPreviewSourceRef (stopAllPlayback s) = afterPreviewSourceRef s"
  "nextSource (stopAllPlayback s) = nextSource s"
  "contextReady (stopAllPlayback s) = contextReady s"
  "hasAudioBuffer (stopAllPlayback s) = hasAudioBuffer s"
  "hasProcessedVisBuffer (stopAllPlayback s) = hasProcessedVisBuffer s"
  by (auto simp: stopAllPlayback_def Let_def heldSources_def)

lemma heldSources_stopAll [simp]: "heldSources (stopAllPlayback s) = heldSources s"
  by (simp add: heldSources_def)

lemma startSource_fields [simp]:
  "fst (startSource h s) = nextSource s"
  "playing (snd (startSource h s)) = insert (nextSource s) (playing s)"
  "originalSourceRef (snd (startSource h s)) = originalSourceRef s"
  "processedSourceRef (snd (startSource h s)) = processedSourceRef s"
  "historySourceRef (snd (startSource h s)) = historySourceRef s"
  "beforePreviewSourceRef (snd (startSource h s)) = beforePreviewSourceRef s"
  "afterPreviewSourceRef (snd (startSource h s)) = afterPreviewSourceRef s"
  by (simp_all add: startSource_def Let_def)

text \<open>Whenever every playing source is held by a ref, a start leaves only the new source
  playing.\<close>

lemma start_original_exclusive:
  assumes "playing s \<subseteq> heldSources s" "contextReady s" "hasAudioBuffer s" "\<not> isPlayingOriginal s"
  shows "playing (toggleOriginalPlayback s) = {nextSource s}"
  using assms by (auto simp: toggleOriginalPlayback_def Let_def)

lemma start_processed_exclusive:
  assumes "playing s \<subseteq> heldSources s" "contextReady s" "hasAudioBuffer s" "\<not> isPlayingProcessed s"
  shows "playing (toggleProcessedPlayback s) = {nextSource s}"
  using assms by (auto simp: toggleProcessedPlayback_def Let_def)

lemma start_history_exclusive:
  assumes "playing s \<subseteq> heldSources s" "contextReady s" "playingHistoryId s \<noteq> Some item"
  shows "playing (handleHistoryPlay item s) = {nextSource s}"
  using assms by (auto simp: handleHistoryPlay_def Let_def)

lemma start_preview_exclusive:
  assumes "playing s \<subseteq> heldSources s" "contextReady s" "hasAudioBuffer s"
    "hasProcessedVisBuffer s" "playingPreview s \<noteq> Some t"
  shows "playing (togglePreviewPlayback t s) = {nextSource s}"
  using assms by (cases t) (auto simp: togglePreviewPlayback_def Let_def)

text \<open>Every handler and every source that runs out keep the playing sources among the
  held ones; only the dispatch of an \<^verbatim>\<open>ended\<close> event can break this.\<close>

lemma held_user_events:
  assumes "playing s \<subseteq> heldSources s" "\<forall>n. ev \<noteq> EndedEvent n"
  shows "playing (playbackStep ev s) \<subseteq> heldSources (playbackStep ev s)"
proof (cases ev)
  case ToggleOriginal
  then show ?thesis using assms(1)
    by (auto simp: toggleOriginalPlayback_def Let_def heldSources_def)
next
  case ToggleProcessed
  then show ?thesis using assms(1)
    by (auto simp: toggleProcessedPlayback_def Let_def heldSources_def)
next
  case (TogglePreview t)
  then show ?thesis using assms(1)
    by (cases t) (auto simp: togglePreviewPlayback_def Let_def heldSources_def)
next
  case (HistoryPlay item)
  then show ?thesis using assms(1)
    by (auto simp: handleHistoryPlay_def Let_def heldSources_def)
next
  case StopAll
  then show ?thesis using assms(1) by auto
next
  case (SourceRunsOut n)
  then show ?thesis using assms(1) by (auto simp: heldSources_def)
next
  case (EndedEvent n)
  then show ?thesis using assms(2) by simp
qed

text \<open>
  C6 fails on the code. Play history item 1, then history item 2 while item 1 plays: the
  handler stops the first source (number 0) and starts the second (number 1), which the
  history ref now holds. The \<^verbatim>\<open>ended\<close> event of source 0 is dispatched afterwards, and
  its handler clears the history ref and the playing id, although the ref holds source 1:
  source 1 plays on, held by no ref. Starting the original playback then cannot stop it,
  and sources 1 and 2 are active together.
\<close>

theorem playback_exclusion_broken:
  "(let s = runPlayback [HistoryPlay 1, HistoryPlay 2, EndedEvent 0] readyPlayback
    in playing s = {1} \<and> historySourceRef s = None \<and> playingHistoryId s = None
       \<and> heldSources s = {})
   \<and> (let s = runPlayback [HistoryPlay 1, HistoryPlay 2, EndedEvent 0, ToggleOriginal]
                 readyPlayback
      in playing s = {1, 2} \<and> originalSourceRef s = Some 2 \<and> isPlayingOriginal s
         \<and> historySourceRef s = None \<and> playingHistoryId s = None)"
  by (simp add: pb_defs heldSources_def insert_commute numeral_2_eq_2)

end
